theory Spec2Isabelle
  imports Complex_Main "HOL-Library.Sublist"
begin

section \<open>Procedural track generation of the car racing environment\<close>

text \<open>
  A shallow embedding of \<^verbatim>\<open>gym/envs/box2d/car_racing.py\<close>. Python floats are modelled
  as \<open>real\<close>, Python integers as \<open>int\<close> or, for indices and counts, \<open>nat\<close>. The two
  random sources of the program, the seeded \<^verbatim>\<open>self.np_random\<close> and the process-wide
  \<^verbatim>\<open>np.random\<close>, are explicit arguments: each function receives the values it draws.
\<close>

subsection \<open>Module constants\<close>

definition SCALE :: real where "SCALE = 6"
definition TRACK_RAD :: real where "TRACK_RAD = 900 / SCALE"
definition TRACK_DETAIL_STEP :: real where "TRACK_DETAIL_STEP = 21 / SCALE"
definition TRACK_TURN_RATE :: real where "TRACK_TURN_RATE = 0.31"
definition TRACK_WIDTH :: real where "TRACK_WIDTH = 40 / SCALE"
definition BORDER_MIN_COUNT :: nat where "BORDER_MIN_COUNT = 4"
definition CHECKPOINTS :: nat where "CHECKPOINTS = 12"

text \<open>\<^verbatim>\<open>self.start_alpha\<close>, as \<^verbatim>\<open>_get_track\<close> sets it.\<close>

definition start_alpha :: real where
  "start_alpha = 2 * pi * (-0.5) / real CHECKPOINTS"

datatype py_error = IndexError | ValueError | ZeroDivisionError

subsection \<open>Configuration\<close>

text \<open>
  The four configuration attributes of \<^verbatim>\<open>CarRacing\<close> set in \<^verbatim>\<open>__init__\<close>. The record is
  extensible: every other attribute of the environment lives in its \<open>more\<close> part.
\<close>

record config =
  num_lanes_changes :: int
  num_tracks :: int
  num_lanes :: int
  prob_obstacle :: real

text \<open>
  \<^verbatim>\<open>set_config(self, num_tracks, num_lanes, num_lanes_changes, prob_obstacle)\<close>: four
  conditional assignments, in the order of the source.
\<close>

definition set_config ::
  "'a config_scheme \<Rightarrow> int \<Rightarrow> int \<Rightarrow> int \<Rightarrow> real \<Rightarrow> 'a config_scheme" where
  "set_config self n_tracks n_lanes n_lanes_changes p_obstacle =
    (let self = self\<lparr>num_lanes :=
           (if n_lanes > 0 \<and> n_lanes \<le> 2 then n_lanes else num_lanes self)\<rparr>;
         self = self\<lparr>num_tracks :=
           (if n_tracks > 0 \<and> n_tracks \<le> 2 then n_tracks else num_tracks self)\<rparr>;
         self = self\<lparr>prob_obstacle :=
           (if p_obstacle \<ge> 0 \<and> p_obstacle \<le> 1 then p_obstacle else prob_obstacle self)\<rparr>;
         self = self\<lparr>num_lanes_changes :=
           (if n_lanes_changes \<ge> 0 then n_lanes_changes else num_lanes_changes self)\<rparr>
     in self)"

subsection \<open>Track points, segments and the per-segment metadata\<close>

text \<open>
  A track point is the tuple \<^verbatim>\<open>(alpha, beta, x, y)\<close>; a segment is the pair
  \<^verbatim>\<open>[track[i-1], track[i]]\<close>; a track is a list of segments.
\<close>

type_synonym track_point = "real \<times> real \<times> real \<times> real"
type_synonym segment = "track_point \<times> track_point"

definition pt_alpha :: "track_point \<Rightarrow> real" where "pt_alpha p = fst p"
definition pt_beta :: "track_point \<Rightarrow> real" where "pt_beta p = fst (snd p)"
definition pt_x :: "track_point \<Rightarrow> real" where "pt_x p = fst (snd (snd p))"
definition pt_y :: "track_point \<Rightarrow> real" where "pt_y p = snd (snd (snd p))"

text \<open>\<^verbatim>\<open>np.linalg.norm\<close> of the difference of two \<open>(x, y)\<close> vectors.\<close>

definition norm2 :: "real \<times> real \<Rightarrow> real \<times> real \<Rightarrow> real" where
  "norm2 a b = sqrt ((fst a - fst b)\<^sup>2 + (snd a - snd b)\<^sup>2)"

text \<open>\<^verbatim>\<open>p[2:]\<close> of a track point: its position.\<close>

definition pt_xy :: "track_point \<Rightarrow> real \<times> real" where
  "pt_xy p = (pt_x p, pt_y p)"

text \<open>
  One row of the structured array \<^verbatim>\<open>info\<close> built by \<^verbatim>\<open>_create_info\<close>. The fields
  are those of the dtype (\<^verbatim>\<open>end\<close> is written \<open>info_end\<close>); \<^verbatim>\<open>np.zeros\<close> gives
  \<open>0\<close>/\<open>False\<close> everywhere.
\<close>

record seg_info =
  info_track :: int
  info_end :: bool
  info_begining :: bool
  info_intersection :: bool
  info_start :: bool
  info_lanes :: "bool list"
  info_obstacles :: int

definition zero_info :: seg_info where
  "zero_info = \<lparr>info_track = 0, info_end = False, info_begining = False,
     info_intersection = False, info_start = False, info_lanes = [], info_obstacles = 0\<rparr>"

text \<open>
  Python indexing \<^verbatim>\<open>xs[k]\<close> with a possibly negative index, for a read that the
  source performs only in range (\<^verbatim>\<open>track[j-1]\<close> with \<open>0 \<le> j < len(track)\<close>).
\<close>

definition py_nth :: "'a list \<Rightarrow> int \<Rightarrow> 'a" where
  "py_nth xs k = xs ! nat (if k < 0 then k + int (length xs) else k)"

text \<open>The bound of a Python slice \<^verbatim>\<open>xs[lo:hi]\<close>: negative bounds count from the end,
  and every bound is clipped to the length.\<close>

definition py_slice_bound :: "nat \<Rightarrow> int \<Rightarrow> nat" where
  "py_slice_bound n k = (if k < 0 then nat (max 0 (k + int n)) else min (nat k) n)"

text \<open>\<^verbatim>\<open>info[lo:hi]['track'] = i\<close>.\<close>

definition set_track_slice :: "int \<Rightarrow> int \<Rightarrow> int \<Rightarrow> seg_info list \<Rightarrow> seg_info list" where
  "set_track_slice lo hi i info =
     map (\<lambda>(k, r). if py_slice_bound (length info) lo \<le> k \<and> k < py_slice_bound (length info) hi
                    then r\<lparr>info_track := i\<rparr> else r)
         (enumerate 0 info)"

text \<open>
  The body of the loop over \<^verbatim>\<open>j\<close> in \<^verbatim>\<open>_create_info\<close>: \<open>prev_len\<close> is
  \<^verbatim>\<open>len(self.tracks[i-1])\<close>. The position \<open>pos\<close> is always inside \<open>info\<close>, whose length is
  the sum of all track lengths.
\<close>

definition mark_end_start :: "segment list \<Rightarrow> nat \<Rightarrow> seg_info list \<Rightarrow> nat \<Rightarrow> seg_info list" where
  "mark_end_start trk prev_len info j =
     (let pos = j + prev_len;
          p = trk ! j;
          next_p = trk ! ((j + 1) mod length trk);
          last_p = py_nth trk (int j - 1)
      in if snd p \<noteq> fst next_p then info[pos := (info ! pos)\<lparr>info_end := True\<rparr>]
         else if fst p \<noteq> snd last_p then info[pos := (info ! pos)\<lparr>info_start := True\<rparr>]
         else info)"

text \<open>The body of the loop \<^verbatim>\<open>for i in range(1, len(self.tracks))\<close>.\<close>

definition annotate_track :: "segment list list \<Rightarrow> seg_info list \<Rightarrow> nat \<Rightarrow> seg_info list" where
  "annotate_track tracks info i =
     (let trk = tracks ! i;
          prev_len = length (tracks ! (i - 1));
          info = set_track_slice (int prev_len - 1) (int prev_len + int (length trk)) (int i) info
      in fold (\<lambda>j inf. mark_end_start trk prev_len inf j) [0..<length trk] info)"

text \<open>\<^verbatim>\<open>np.argmin\<close>: the first index of a minimal element of a non-empty list.\<close>

fun argmin_from :: "nat \<Rightarrow> real \<Rightarrow> nat \<Rightarrow> real list \<Rightarrow> nat" where
  "argmin_from best d k [] = best"
| "argmin_from best d k (e # es) =
     (if e < d then argmin_from k e (Suc k) es else argmin_from best d (Suc k) es)"

definition argmin :: "real list \<Rightarrow> py_error + nat" where
  "argmin ds = (case ds of [] \<Rightarrow> Inl ValueError | d # es \<Rightarrow> Inr (argmin_from 0 d 1 es))"

text \<open>
  \<^verbatim>\<open>_create_info\<close>. \<open>trackc\<close> is \<^verbatim>\<open>self.track\<close>, the concatenation of the tracks. The
  boolean mask \<^verbatim>\<open>np.logical_or(info['end'], info['start'])\<close> selects rows of
  \<^verbatim>\<open>self.track\<close>, which raises when the lengths differ; \<^verbatim>\<open>np.argmin\<close> raises on an
  empty primary track.
\<close>

definition initial_info :: "segment list list \<Rightarrow> seg_info list" where
  "initial_info tracks =
     map (\<lambda>r. r\<lparr>info_lanes := [True, True]\<rparr>) (replicate (sum_list (map length tracks)) zero_info)"

definition boundary_points :: "segment list \<Rightarrow> seg_info list \<Rightarrow> (real \<times> real) list" where
  "boundary_points trackc info =
     map (\<lambda>(s, r). pt_xy (snd s)) (filter (\<lambda>(s, r). info_end r \<or> info_start r) (zip trackc info))"

fun nearest_indices :: "segment list \<Rightarrow> (real \<times> real) list \<Rightarrow> py_error + nat list" where
  "nearest_indices primary [] = Inr []"
| "nearest_indices primary (pnt # pnts) =
     (case argmin (map (\<lambda>s. norm2 (pt_xy (snd s)) pnt) primary) of
        Inl e \<Rightarrow> Inl e
      | Inr k \<Rightarrow> (case nearest_indices primary pnts of
                    Inl e \<Rightarrow> Inl e
                  | Inr ks \<Rightarrow> Inr (k # ks)))"

definition create_info :: "segment list list \<Rightarrow> segment list \<Rightarrow> py_error + seg_info list" where
  "create_info tracks trackc =
     (let info = fold (\<lambda>i inf. annotate_track tracks inf i) [1..<length tracks]
                   (initial_info tracks)
      in if length trackc \<noteq> length info then Inl IndexError
         else case nearest_indices (tracks ! 0) (boundary_points trackc info) of
                Inl e \<Rightarrow> Inl e
              | Inr ks \<Rightarrow> Inr (map (\<lambda>(k, r). if k \<in> set ks then r\<lparr>info_intersection := True\<rparr> else r)
                                  (enumerate 0 info)))"

subsection \<open>Lane toggling\<close>

text \<open>
  The loop of \<^verbatim>\<open>_set_lanes\<close>. \<open>changes\<close> is the array drawn from the seeded source
  (\<^verbatim>\<open>self.np_random.randint(0, len(self.track), self.num_lanes_changes)\<close>); \<open>draws k\<close> is
  the \<open>k\<close>-th value of \<^verbatim>\<open>np.random.randint(0,2,1)[0]\<close> from the process-wide source,
  \<open>True\<close> for 1. The loop state is \<open>(rm_lane, lane, k, info)\<close> with \<open>k\<close> the number of
  values drawn so far.
\<close>

type_synonym lane_state = "nat \<times> nat \<times> nat \<times> seg_info list"

definition set_lanes_step ::
  "nat list \<Rightarrow> (nat \<Rightarrow> bool) \<Rightarrow> nat \<Rightarrow> lane_state \<Rightarrow> py_error + lane_state" where
  "set_lanes_step changes draws i st =
     (case st of (rm_lane, lane, k, info) \<Rightarrow>
        let change = (i \<in> set changes);
            rm_lane = (rm_lane + (if change then 1 else 0)) mod 2;
            drawn = (change \<and> rm_lane = 1);
            lane = (if drawn then (if draws k then 1 else 0) else lane);
            k = (if drawn then Suc k else k)
        in if i \<ge> length info then Inl IndexError
           else if rm_lane \<noteq> 0 \<and> lane \<ge> length (info_lanes (info ! i)) then Inl IndexError
           else
             let info = (if rm_lane \<noteq> 0
                         then info[i := (info ! i)\<lparr>info_lanes := (info_lanes (info ! i))[lane := False]\<rparr>]
                         else info);
                 rm_lane = (if info_end (info ! i) \<or> info_start (info ! i) then 0 else rm_lane)
             in Inr (rm_lane, lane, k, info))"

fun set_lanes_loop ::
  "nat list \<Rightarrow> (nat \<Rightarrow> bool) \<Rightarrow> nat list \<Rightarrow> lane_state \<Rightarrow> py_error + lane_state" where
  "set_lanes_loop changes draws [] st = Inr st"
| "set_lanes_loop changes draws (i # is) st =
     (case set_lanes_step changes draws i st of
        Inl e \<Rightarrow> Inl e
      | Inr st' \<Rightarrow> set_lanes_loop changes draws is st')"

text \<open>
  \<^verbatim>\<open>_set_lanes\<close>: \<open>trackc\<close> is \<^verbatim>\<open>self.track\<close>. \<^verbatim>\<open>randint(0, 0, n)\<close> raises
  \<^verbatim>\<open>ValueError\<close> on an empty track.
\<close>

definition set_lanes ::
  "'a config_scheme \<Rightarrow> segment list \<Rightarrow> seg_info list \<Rightarrow> nat list \<Rightarrow> (nat \<Rightarrow> bool)
     \<Rightarrow> py_error + seg_info list" where
  "set_lanes self trackc info changes draws =
     (if num_lanes_changes self > 0 \<and> num_lanes self > 1 then
        (if trackc = [] then Inl ValueError
         else case set_lanes_loop changes draws [0..<length trackc] (0, 0, 0, info) of
                Inl e \<Rightarrow> Inl e
              | Inr (rm_lane, lane, k, info') \<Rightarrow> Inr info')
      else Inr info)"

subsection \<open>Loops that can raise\<close>

text \<open>A \<^verbatim>\<open>for\<close> loop whose body may raise: the first exception ends the loop.\<close>

fun fold_err :: "('a \<Rightarrow> 's \<Rightarrow> py_error + 's) \<Rightarrow> 'a list \<Rightarrow> 's \<Rightarrow> py_error + 's" where
  "fold_err f [] s = Inr s"
| "fold_err f (x # xs) s = (case f x s of Inl e \<Rightarrow> Inl e | Inr s' \<Rightarrow> fold_err f xs s')"

text \<open>The position that a Python list index \<^verbatim>\<open>xs[k]\<close> denotes, or \<^verbatim>\<open>IndexError\<close>.\<close>

definition py_index :: "nat \<Rightarrow> int \<Rightarrow> py_error + nat" where
  "py_index n k =
     (if 0 \<le> k \<and> k < int n then Inr (nat k)
      else if - int n \<le> k \<and> k < 0 then Inr (nat (k + int n))
      else Inl IndexError)"

subsection \<open>Border flags\<close>

text \<open>
  The first pass of the border computation in \<^verbatim>\<open>_create_track\<close>. \<open>window_step\<close> is the
  body of the loop over \<^verbatim>\<open>neg\<close>, on the pair \<^verbatim>\<open>(good, oneside)\<close>; every index
  \<^verbatim>\<open>i-neg\<close> is at least \<open>-2\<close> and the loop over \<^verbatim>\<open>i\<close> runs only on tracks with at
  least two segments, so the reads are in range.
\<close>

definition window_step :: "segment list \<Rightarrow> nat \<Rightarrow> nat \<Rightarrow> bool \<times> real \<Rightarrow> bool \<times> real" where
  "window_step trk i neg st =
     (case st of (good, oneside) \<Rightarrow>
        let beta1 = pt_beta (snd (py_nth trk (int i - int neg)));
            beta2 = pt_beta (fst (py_nth trk (int i - int neg)))
        in (good \<and> \<bar>beta1 - beta2\<bar> > TRACK_TURN_RATE * 0.2, oneside + sgn (beta1 - beta2)))"

definition sustained_turn :: "segment list \<Rightarrow> nat \<Rightarrow> bool" where
  "sustained_turn trk i =
     (case fold (window_step trk i) [0..<BORDER_MIN_COUNT] (True, 0) of
        (good, oneside) \<Rightarrow> good \<and> \<bar>oneside\<bar> = real BORDER_MIN_COUNT)"

definition border_first_pass :: "segment list \<Rightarrow> bool list" where
  "border_first_pass trk =
     fold (\<lambda>i border. border[i := sustained_turn trk i]) [1..<length trk]
       (replicate (length trk) False)"

text \<open>
  The second pass, in place: \<^verbatim>\<open>border[i-neg] |= border[i]\<close>. The index \<^verbatim>\<open>i-neg\<close> can be
  as low as \<open>-3\<close>, which a list of one or two flags does not have.
\<close>

definition border_or :: "nat \<Rightarrow> nat \<Rightarrow> bool list \<Rightarrow> py_error + bool list" where
  "border_or i neg border =
     (case py_index (length border) (int i - int neg) of
        Inl e \<Rightarrow> Inl e
      | Inr k \<Rightarrow> Inr (border[k := (border ! k \<or> border ! i)]))"

definition border_extend_at :: "nat \<Rightarrow> bool list \<Rightarrow> py_error + bool list" where
  "border_extend_at i border = fold_err (border_or i) [0..<BORDER_MIN_COUNT] border"

definition border_extend :: "bool list \<Rightarrow> py_error + bool list" where
  "border_extend border = fold_err border_extend_at [0..<length border] border"

definition track_border :: "segment list \<Rightarrow> py_error + bool list" where
  "track_border trk = border_extend (border_first_pass trk)"

text \<open>Pointwise order on flag lists: flags are only ever switched on.\<close>

definition flags_le :: "bool list \<Rightarrow> bool list \<Rightarrow> bool" where
  "flags_le b b' \<longleftrightarrow> length b = length b' \<and> (\<forall>k < length b. b ! k \<longrightarrow> b' ! k)"

text \<open>The segment \<open>neg\<close> places before segment \<open>i\<close> on a circular track of \<open>n\<close> segments.\<close>

definition before :: "nat \<Rightarrow> nat \<Rightarrow> nat \<Rightarrow> nat" where
  "before n i neg = nat ((int i - int neg) mod int n)"

subsection \<open>Loop extraction\<close>

text \<open>
  The second half of \<^verbatim>\<open>_get_track\<close>. \<open>pass_through_start\<close> is the test of the source
  (with \<open>sa\<close> for \<^verbatim>\<open>self.start_alpha\<close>) at
  index \<open>i\<close>; \<open>find_loop\<close> is the backward \<^verbatim>\<open>while True\<close> loop, called with the value of
  \<^verbatim>\<open>i\<close> after \<^verbatim>\<open>i -= 1\<close>, and \<open>None\<close> is \<^verbatim>\<open>return False\<close>. It returns \<open>(i1, i2)\<close>.
\<close>

definition pass_through_start :: "real \<Rightarrow> track_point list \<Rightarrow> nat \<Rightarrow> bool" where
  "pass_through_start sa track i \<longleftrightarrow>
     pt_alpha (track ! i) > sa \<and> pt_alpha (track ! (i - 1)) \<le> sa"

fun find_loop :: "real \<Rightarrow> track_point list \<Rightarrow> nat \<Rightarrow> int \<Rightarrow> int \<Rightarrow> (int \<times> int) option" where
  "find_loop sa track 0 i1 i2 = None"
| "find_loop sa track (Suc k) i1 i2 =
     (if pass_through_start sa track (Suc k) \<and> i2 = -1
        then find_loop sa track k i1 (int (Suc k))
      else if pass_through_start sa track (Suc k) \<and> i1 = -1
        then Some (int (Suc k), i2)
      else find_loop sa track k i1 i2)"

text \<open>On an empty list the first read, \<^verbatim>\<open>track[-1]\<close>, raises.\<close>

definition find_closed_loop :: "real \<Rightarrow> track_point list \<Rightarrow> py_error + (int \<times> int) option" where
  "find_closed_loop sa track =
     (if track = [] then Inl IndexError
      else Inr (find_loop sa track (length track - 1) (-1) (-1)))"

text \<open>The Python slice \<^verbatim>\<open>xs[lo:hi]\<close>.\<close>

definition py_slice :: "'a list \<Rightarrow> int \<Rightarrow> int \<Rightarrow> 'a list" where
  "py_slice xs lo hi =
     (let l = py_slice_bound (length xs) lo; h = py_slice_bound (length xs) hi
      in take (h - l) (drop l xs))"

text \<open>\<^verbatim>\<open>well_glued_together\<close>, on the non-empty extracted point list.\<close>

definition well_glued_together :: "track_point list \<Rightarrow> real" where
  "well_glued_together track =
     (let first_beta = pt_beta (track ! 0);
          first_perp_x = cos first_beta;
          first_perp_y = sin first_beta
      in sqrt ((first_perp_x * (pt_x (track ! 0) - pt_x (last track)))\<^sup>2 +
               (first_perp_y * (pt_y (track ! 0) - pt_y (last track)))\<^sup>2))"

text \<open>\<^verbatim>\<open>[[track[i-1], track[i]] for i in range(len(track))]\<close>.\<close>

definition pair_points :: "track_point list \<Rightarrow> segment list" where
  "pair_points track = map (\<lambda>i. (py_nth track (int i - 1), track ! i)) [0..<length track]"

text \<open>
  From the slice to the end of \<^verbatim>\<open>_get_track\<close>: \<^verbatim>\<open>track[0]\<close> raises on an empty slice,
  \<open>Inr None\<close> is \<^verbatim>\<open>return False\<close>.
\<close>

definition close_loop :: "track_point list \<Rightarrow> py_error + segment list option" where
  "close_loop track =
     (if track = [] then Inl IndexError
      else if well_glued_together track > TRACK_DETAIL_STEP then Inr None
      else Inr (Some (pair_points track)))"

definition extract_loop :: "real \<Rightarrow> track_point list \<Rightarrow> py_error + segment list option" where
  "extract_loop sa track =
     (case find_closed_loop sa track of
        Inl e \<Rightarrow> Inl e
      | Inr None \<Rightarrow> Inr None
      | Inr (Some (i1, i2)) \<Rightarrow> close_loop (py_slice track i1 (i2 - 1)))"

text \<open>
  The quantity that the comment on \<^verbatim>\<open>well_glued_together\<close> names, the length of the
  perpendicular jump between head and tail: the displacement between the first and the last
  point projected on the first point's heading-normal \<open>(cos beta, sin beta)\<close>. It follows
  the words, not the code.
\<close>

definition perp_jump :: "track_point list \<Rightarrow> real" where
  "perp_jump track =
     \<bar>cos (pt_beta (track ! 0)) * (pt_x (track ! 0) - pt_x (last track)) +
      sin (pt_beta (track ! 0)) * (pt_y (track ! 0) - pt_y (last track))\<bar>"

text \<open>The indices \<open>1 \<le> i < len(track)\<close> at which the test holds, in increasing order.\<close>

definition crossings :: "real \<Rightarrow> track_point list \<Rightarrow> nat list" where
  "crossings sa track =
     filter (pass_through_start sa track) [1..<length track]"

text \<open>The crossings among the indices \<open>1..i\<close>, and the last two crossings.\<close>

definition cs_upto :: "real \<Rightarrow> track_point list \<Rightarrow> nat \<Rightarrow> nat list" where
  "cs_upto sa track i = filter (pass_through_start sa track) [1..<Suc i]"

definition last_crossing :: "real \<Rightarrow> track_point list \<Rightarrow> nat" where
  "last_crossing sa track = last (crossings sa track)"

definition prev_crossing :: "real \<Rightarrow> track_point list \<Rightarrow> nat" where
  "prev_crossing sa track = last (butlast (crossings sa track))"

subsection \<open>Random point on the track\<close>

text \<open>
  \<^verbatim>\<open>np.random.uniform(low, high)\<close> is \<open>low + (high - low) * u\<close> for a sample \<open>u\<close> of
  \<open>[0, 1)\<close>; a Python \<^verbatim>\<open>bool\<close> in arithmetic is 0 or 1.
\<close>

definition uniform :: "real \<Rightarrow> real \<Rightarrow> real \<Rightarrow> real" where
  "uniform low high u = low + (high - low) * u"

definition of_py_bool :: "bool \<Rightarrow> real" where
  "of_py_bool b = (if b then 1 else 0)"

text \<open>
  \<^verbatim>\<open>x_from\<close>, \<^verbatim>\<open>x_to\<close> and the value added to \<^verbatim>\<open>x\<close> in \<^verbatim>\<open>get_rnd_point_in_track\<close>,
  for the point \<open>alpha\<close> and the lanes \<open>r, l\<close> of the chosen segment.
\<close>

definition x_from :: "real \<Rightarrow> bool \<Rightarrow> bool \<Rightarrow> real" where
  "x_from alpha l border = - TRACK_WIDTH * of_py_bool l + cos alpha * of_py_bool border * TRACK_WIDTH / 3.5"

definition x_to :: "real \<Rightarrow> bool \<Rightarrow> bool \<Rightarrow> real" where
  "x_to alpha r border = TRACK_WIDTH * of_py_bool r - sin alpha * of_py_bool border * TRACK_WIDTH / 3.5"

definition rnd_offset :: "real \<Rightarrow> bool \<Rightarrow> bool \<Rightarrow> bool \<Rightarrow> real \<Rightarrow> real" where
  "rnd_offset alpha r l border u = uniform (x_from alpha l border) (x_to alpha r border) u"

text \<open>
  \<^verbatim>\<open>get_rnd_point_in_track\<close>. \<open>idx\<close> is the value of
  \<^verbatim>\<open>self.np_random.randint(0, len(self.track))\<close>, which raises on an empty track; \<open>u\<close> is
  the sample behind \<^verbatim>\<open>np.random.uniform\<close>, of the process-wide source. The unpacking
  \<^verbatim>\<open>r,l = self.info[idx]['lanes']\<close> needs exactly two lane slots.
\<close>

definition get_rnd_point_in_track ::
  "segment list \<Rightarrow> seg_info list \<Rightarrow> bool \<Rightarrow> nat \<Rightarrow> real \<Rightarrow> py_error + real list" where
  "get_rnd_point_in_track trackc info border idx u =
     (if trackc = [] then Inl ValueError
      else if idx \<ge> length trackc \<or> idx \<ge> length info then Inl IndexError
      else case snd (trackc ! idx) of (alpha, beta, x, y) \<Rightarrow>
        (case info_lanes (info ! idx) of
           [r, l] \<Rightarrow> Inr [beta, x + rnd_offset alpha r l border u, y]
         | _ \<Rightarrow> Inl ValueError))"

subsection \<open>Checkpoints and the path walk\<close>

text \<open>
  The first half of \<^verbatim>\<open>_get_track\<close>. A checkpoint is \<^verbatim>\<open>(alpha, x, y)\<close>; \<open>rnd k\<close> is the
  sample of \<open>[0, 1)\<close> behind the \<open>k\<close>-th call of \<^verbatim>\<open>self.np_random.uniform\<close>, two calls
  for each checkpoint.
\<close>

type_synonym checkpoint = "real \<times> real \<times> real"

definition checkpoint_at :: "(nat \<Rightarrow> real) \<Rightarrow> nat \<Rightarrow> checkpoint" where
  "checkpoint_at rnd c =
     (let alpha = 2 * pi * real c / real CHECKPOINTS
                    + uniform 0 (2 * pi * 1 / real CHECKPOINTS) (rnd (2 * c));
          rad = uniform (TRACK_RAD / 3) TRACK_RAD (rnd (2 * c + 1));
          alpha = (if c = 0 then 0 else alpha);
          rad = (if c = 0 then 1.5 * TRACK_RAD else rad);
          alpha = (if c = CHECKPOINTS - 1 then 2 * pi * real c / real CHECKPOINTS else alpha);
          rad = (if c = CHECKPOINTS - 1 then 1.5 * TRACK_RAD else rad)
      in (alpha, rad * cos alpha, rad * sin alpha))"

definition make_checkpoints :: "(nat \<Rightarrow> real) \<Rightarrow> checkpoint list" where
  "make_checkpoints rnd = map (checkpoint_at rnd) [0..<CHECKPOINTS]"

text \<open>\<^verbatim>\<open>math.atan2(y, x)\<close> on the reals.\<close>

definition atan2 :: "real \<Rightarrow> real \<Rightarrow> real" where
  "atan2 y x =
     (if x > 0 then arctan (y / x)
      else if x < 0 \<and> y \<ge> 0 then arctan (y / x) + pi
      else if x < 0 then arctan (y / x) - pi
      else if y > 0 then pi / 2
      else if y < 0 then - pi / 2
      else 0)"

text \<open>
  The innermost \<^verbatim>\<open>while True\<close>: the scan of the destination cursor up to the end of the
  ring of checkpoints. It returns \<^verbatim>\<open>failed\<close> and the cursor; \<^verbatim>\<open>dest_i % len(checkpoints)\<close>
  raises on an empty list.
\<close>

function scan_dest :: "checkpoint list \<Rightarrow> real \<Rightarrow> nat \<Rightarrow> py_error + bool \<times> nat" where
  "scan_dest cps alpha dest_i =
     (if cps = [] then Inl ZeroDivisionError
      else if alpha \<le> fst (cps ! (dest_i mod length cps)) then Inr (False, dest_i)
      else if (dest_i + 1) mod length cps = 0 then Inr (True, dest_i + 1)
      else scan_dest cps alpha (dest_i + 1))"
  by pat_completeness auto
termination
proof (relation "measure (\<lambda>(cps, alpha, dest_i). length cps - 1 - dest_i mod length cps)")
  show "wf (measure (\<lambda>(cps, alpha, dest_i). length cps - 1 - dest_i mod length cps))"
    by simp
next
  fix cps :: "checkpoint list" and alpha :: real and dest_i :: nat
  assume ne: "cps \<noteq> []" and nz: "(dest_i + 1) mod length cps \<noteq> 0"
  have pos: "0 < length cps" using ne by simp
  have "dest_i mod length cps < length cps" using pos by simp
  moreover have "(dest_i + 1) mod length cps = dest_i mod length cps + 1"
    using nz by (metis Suc_eq_plus1 mod_Suc)
  moreover have "dest_i mod length cps + 1 < length cps"
    using nz pos by (metis Suc_eq_plus1 calculation(2) mod_less_divisor)
  ultimately show "((cps, alpha, dest_i + 1), (cps, alpha, dest_i))
      \<in> measure (\<lambda>(cps, alpha, dest_i). length cps - 1 - dest_i mod length cps)"
    by simp
qed


declare scan_dest.simps [simp del]

lemma scan_dest_fail:
  "scan_dest cps alpha dest_i = Inr (True, d') \<Longrightarrow>
     d' mod length cps = 0 \<and> dest_i < d' \<and>
     (dest_i mod length cps = 0 \<longrightarrow> alpha > fst (cps ! 0))"
proof (induction cps alpha dest_i rule: scan_dest.induct)
  case (1 cps alpha dest_i)
  from "1.prems" have ne: "cps \<noteq> []"
    and gt: "\<not> alpha \<le> fst (cps ! (dest_i mod length cps))"
    by (auto simp: scan_dest.simps [of cps alpha dest_i] split: if_splits)
  show ?case
  proof (cases "(dest_i + 1) mod length cps = 0")
    case True
    with ne gt "1.prems" have "d' = dest_i + 1"
      by (simp add: scan_dest.simps [of cps alpha dest_i])
    with True gt show ?thesis by auto
  next
    case False
    with ne gt "1.prems" have rec: "scan_dest cps alpha (dest_i + 1) = Inr (True, d')"
      by (simp add: scan_dest.simps [of cps alpha dest_i])
    from "1.IH" [OF ne gt False rec] have "d' mod length cps = 0 \<and> dest_i + 1 < d'"
      by simp
    with gt show ?thesis by auto
  qed
qed

text \<open>
  The loop around it: after a failed scan \<^verbatim>\<open>alpha\<close> is lowered by \<open>2 * pi\<close> and the scan
  starts again, now at the first checkpoint. It returns \<^verbatim>\<open>alpha\<close> and the cursor.
\<close>

function find_dest :: "checkpoint list \<Rightarrow> real \<Rightarrow> nat \<Rightarrow> py_error + real \<times> nat" where
  "find_dest cps alpha dest_i =
     (case scan_dest cps alpha dest_i of
        Inl e \<Rightarrow> Inl e
      | Inr (failed, d) \<Rightarrow> if \<not> failed then Inr (alpha, d) else find_dest cps (alpha - 2 * pi) d)"
  by pat_completeness auto
termination
proof (relation "measure (\<lambda>(cps, alpha, dest_i).
    2 * nat \<lceil>(alpha - fst (cps ! 0)) / (2 * pi)\<rceil> + (if dest_i mod length cps = 0 then 0 else 1))")
  show "wf (measure (\<lambda>(cps, alpha, dest_i).
    2 * nat \<lceil>(alpha - fst (cps ! 0)) / (2 * pi)\<rceil> + (if dest_i mod length cps = 0 then 0 else 1)))"
    by simp
next
  fix cps :: "checkpoint list" and alpha :: real and dest_i :: nat
    and x2 :: "bool \<times> nat" and failed :: bool and d :: nat
  assume s: "scan_dest cps alpha dest_i = Inr x2" and x2: "(failed, d) = x2" and f: "\<not> \<not> failed"
  from s x2 f have sc: "scan_dest cps alpha dest_i = Inr (True, d)" by auto
  note fl = scan_dest_fail [OF sc]
  let ?a0 = "fst (cps ! 0)"
  have shift: "\<lceil>(alpha - 2 * pi - ?a0) / (2 * pi)\<rceil> = \<lceil>(alpha - ?a0) / (2 * pi)\<rceil> - 1"
  proof -
    have "(alpha - 2 * pi - ?a0) / (2 * pi) = (alpha - ?a0) / (2 * pi) - 1"
      by (simp add: field_simps)
    then show ?thesis by simp
  qed
  define A where "A = nat \<lceil>(alpha - 2 * pi - ?a0) / (2 * pi)\<rceil>"
  define B where "B = nat \<lceil>(alpha - ?a0) / (2 * pi)\<rceil>"
  have le: "A \<le> B"
    unfolding A_def B_def shift by simp
  have lt: "A < B" if "alpha > ?a0"
  proof -
    from that have "0 < (alpha - ?a0) / (2 * pi)" by simp
    then have "1 \<le> \<lceil>(alpha - ?a0) / (2 * pi)\<rceil>" by linarith
    then show ?thesis unfolding A_def B_def shift by linarith
  qed
  have "2 * A + (if d mod length cps = 0 then 0 else 1)
      < 2 * B + (if dest_i mod length cps = 0 then 0 else 1)"
  proof (cases "dest_i mod length cps = 0")
    case False
    with fl le show ?thesis by simp
  next
    case True
    with fl lt have "A < B" by simp
    with fl True show ?thesis by simp
  qed
  then show "((cps, alpha - 2 * pi, d), (cps, alpha, dest_i)) \<in> measure (\<lambda>(cps, alpha, dest_i).
    2 * nat \<lceil>(alpha - fst (cps ! 0)) / (2 * pi)\<rceil> + (if dest_i mod length cps = 0 then 0 else 1))"
    unfolding A_def B_def by simp
qed


declare find_dest.simps [simp del]

text \<open>The two \<^verbatim>\<open>while\<close> loops that bring \<^verbatim>\<open>beta\<close> within \<open>1.5 * pi\<close> of \<^verbatim>\<open>alpha\<close>.\<close>

function turn_down :: "real \<Rightarrow> real \<Rightarrow> real" where
  "turn_down alpha beta = (if beta - alpha > 1.5 * pi then turn_down alpha (beta - 2 * pi) else beta)"
  by pat_completeness auto
termination
proof (relation "measure (\<lambda>(alpha, beta). nat \<lceil>(beta - alpha) / (2 * pi)\<rceil>)")
  show "wf (measure (\<lambda>(alpha, beta). nat \<lceil>(beta - alpha) / (2 * pi)\<rceil>))" by simp
next
  fix alpha beta :: real
  assume gt: "1.5 * pi < beta - alpha"
  have "(beta - 2 * pi - alpha) / (2 * pi) = (beta - alpha) / (2 * pi) - 1"
    by (simp add: field_simps)
  then have shift: "\<lceil>(beta - 2 * pi - alpha) / (2 * pi)\<rceil> = \<lceil>(beta - alpha) / (2 * pi)\<rceil> - 1"
    by simp
  have "0 < 1.5 * pi" by simp
  with gt have "0 < beta - alpha" by linarith
  then have "0 < (beta - alpha) / (2 * pi)" by simp
  then have "1 \<le> \<lceil>(beta - alpha) / (2 * pi)\<rceil>" by linarith
  then have "nat \<lceil>(beta - 2 * pi - alpha) / (2 * pi)\<rceil> < nat \<lceil>(beta - alpha) / (2 * pi)\<rceil>"
    unfolding shift by linarith
  then show "((alpha, beta - 2 * pi), (alpha, beta))
      \<in> measure (\<lambda>(alpha, beta). nat \<lceil>(beta - alpha) / (2 * pi)\<rceil>)"
    by simp
qed

function turn_up :: "real \<Rightarrow> real \<Rightarrow> real" where
  "turn_up alpha beta = (if beta - alpha < - 1.5 * pi then turn_up alpha (beta + 2 * pi) else beta)"
  by pat_completeness auto
termination
proof (relation "measure (\<lambda>(alpha, beta). nat \<lceil>(alpha - beta) / (2 * pi)\<rceil>)")
  show "wf (measure (\<lambda>(alpha, beta). nat \<lceil>(alpha - beta) / (2 * pi)\<rceil>))" by simp
next
  fix alpha beta :: real
  assume lt: "beta - alpha < - 1.5 * pi"
  have "(alpha - (beta + 2 * pi)) / (2 * pi) = (alpha - beta) / (2 * pi) - 1"
    by (simp add: field_simps)
  then have shift: "\<lceil>(alpha - (beta + 2 * pi)) / (2 * pi)\<rceil> = \<lceil>(alpha - beta) / (2 * pi)\<rceil> - 1"
    by simp
  have "0 < 1.5 * pi" by simp
  with lt have "0 < alpha - beta" by linarith
  then have "0 < (alpha - beta) / (2 * pi)" by simp
  then have "1 \<le> \<lceil>(alpha - beta) / (2 * pi)\<rceil>" by linarith
  then have "nat \<lceil>(alpha - (beta + 2 * pi)) / (2 * pi)\<rceil> < nat \<lceil>(alpha - beta) / (2 * pi)\<rceil>"
    unfolding shift by linarith
  then show "((alpha, beta + 2 * pi), (alpha, beta))
      \<in> measure (\<lambda>(alpha, beta). nat \<lceil>(alpha - beta) / (2 * pi)\<rceil>)"
    by simp
qed

declare turn_down.simps [simp del] turn_up.simps [simp del]

text \<open>The variables of the walk; \<^verbatim>\<open>no_freeze\<close> is an argument of the loop.\<close>

record walker =
  w_x :: real
  w_y :: real
  w_beta :: real
  w_dest_i :: nat
  w_laps :: nat
  w_track :: "track_point list"
  w_visited_other_side :: bool

text \<open>One iteration of \<^verbatim>\<open>while 1\<close>, up to \<^verbatim>\<open>track.append\<close>.\<close>

definition walk_body :: "checkpoint list \<Rightarrow> walker \<Rightarrow> py_error + walker" where
  "walk_body cps st =
     (let x = w_x st; y = w_y st; beta = w_beta st;
          alpha = atan2 y x;
          lap = (w_visited_other_side st \<and> alpha > 0);
          laps = (if lap then w_laps st + 1 else w_laps st);
          visited = (if lap then False else w_visited_other_side st);
          visited = (if alpha < 0 then True else visited);
          alpha = (if alpha < 0 then alpha + 2 * pi else alpha)
      in case find_dest cps alpha (w_dest_i st) of
           Inl e \<Rightarrow> Inl e
         | Inr (alpha, dest_i) \<Rightarrow>
             (case cps ! (dest_i mod length cps) of (dest_alpha, dest_x, dest_y) \<Rightarrow>
                let r1x = cos beta; r1y = sin beta;
                    p1x = - r1y; p1y = r1x;
                    dest_dx = dest_x - x; dest_dy = dest_y - y;
                    proj = r1x * dest_dx + r1y * dest_dy;
                    beta = turn_down alpha beta;
                    beta = turn_up alpha beta;
                    prev_beta = beta;
                    proj = proj * SCALE;
                    beta = (if proj > 0.3 then beta - min TRACK_TURN_RATE \<bar>0.001 * proj\<bar> else beta);
                    beta = (if proj < - 0.3 then beta + min TRACK_TURN_RATE \<bar>0.001 * proj\<bar> else beta);
                    x = x + p1x * TRACK_DETAIL_STEP;
                    y = y + p1y * TRACK_DETAIL_STEP
                in Inr \<lparr>w_x = x, w_y = y, w_beta = beta, w_dest_i = dest_i, w_laps = laps,
                        w_track = w_track st @ [(alpha, prev_beta * 0.5 + beta * 0.5, x, y)],
                        w_visited_other_side = visited\<rparr>))"

text \<open>
  The loop with its two exits. \<^verbatim>\<open>no_freeze\<close> starts at 2500 and is never negative, so it
  is a \<open>nat\<close>.
\<close>

function walk_loop :: "checkpoint list \<Rightarrow> nat \<Rightarrow> walker \<Rightarrow> py_error + track_point list" where
  "walk_loop cps no_freeze st =
     (case walk_body cps st of
        Inl e \<Rightarrow> Inl e
      | Inr st' \<Rightarrow>
          if w_laps st' > 4 then Inr (w_track st')
          else if no_freeze - 1 = 0 then Inr (w_track st')
          else walk_loop cps (no_freeze - 1) st')"
  by pat_completeness auto
termination
  by (relation "measure (\<lambda>(cps, no_freeze, st). no_freeze)") auto

declare walk_loop.simps [simp del]

definition walk_start :: walker where
  "walk_start = \<lparr>w_x = 1.5 * TRACK_RAD, w_y = 0, w_beta = 0, w_dest_i = 0, w_laps = 0,
     w_track = [], w_visited_other_side = False\<rparr>"

definition walk :: "checkpoint list \<Rightarrow> py_error + track_point list" where
  "walk cps = walk_loop cps 2500 walk_start"

text \<open>The state after \<open>k\<close> iterations of the loop body, for stating when the loop stops.\<close>

fun walk_iter :: "checkpoint list \<Rightarrow> nat \<Rightarrow> walker \<Rightarrow> py_error + walker" where
  "walk_iter cps 0 st = Inr st"
| "walk_iter cps (Suc k) st =
     (case walk_body cps st of Inl e \<Rightarrow> Inl e | Inr st' \<Rightarrow> walk_iter cps k st')"


text \<open>\<^verbatim>\<open>_get_track\<close>: checkpoints, walk, loop extraction.\<close>

definition get_track :: "(nat \<Rightarrow> real) \<Rightarrow> py_error + segment list option" where
  "get_track rnd =
     (case walk (make_checkpoints rnd) of
        Inl e \<Rightarrow> Inl e
      | Inr track \<Rightarrow> extract_loop start_alpha track)"

subsection \<open>Intersection resolution\<close>

text \<open>
  \<^verbatim>\<open>_remove_roads\<close>. \<open>seg_xy\<close> is a row of \<^verbatim>\<open>track[:,:,[2,3]]\<close>, the positions of the two
  points of a segment.
\<close>

type_synonym xy_pair = "(real \<times> real) \<times> (real \<times> real)"

definition seg_xy :: "segment \<Rightarrow> xy_pair" where
  "seg_xy s = (pt_xy (fst s), pt_xy (snd s))"

text \<open>
  The loop of the local function \<^verbatim>\<open>_get_section\<close>, from position \<open>pos\<close>; it ends at a
  point close to \<open>last_pt\<close> or when \<^verbatim>\<open>pos / track.shape[0] >= 2\<close>. \<^verbatim>\<open>_remove_roads\<close>
  calls it on non-empty tracks only.
\<close>

function get_section_loop ::
  "real \<times> real \<Rightarrow> real \<times> real \<Rightarrow> segment list \<Rightarrow> nat \<Rightarrow> bool \<Rightarrow> xy_pair list \<Rightarrow> xy_pair list" where
  "get_section_loop first_pt last_pt trk pos found sec =
     (let point = seg_xy (trk ! (pos mod length trk));
          found = (found \<or> norm2 (snd point) first_pt \<le> TRACK_WIDTH / 2)
      in if found \<and> norm2 (snd point) last_pt \<le> TRACK_WIDTH / 2 then sec @ [point]
         else let sec = (if found then sec @ [point] else sec)
              in if 2 * length trk \<le> pos + 1 then sec
                 else get_section_loop first_pt last_pt trk (pos + 1) found sec)"
  by pat_completeness auto
termination
  by (relation "measure (\<lambda>(first_pt, last_pt, trk, pos, found, sec). 2 * length trk - pos)") auto

declare get_section_loop.simps [simp del]

definition get_section :: "real \<times> real \<Rightarrow> real \<times> real \<Rightarrow> segment list \<Rightarrow> xy_pair list option" where
  "get_section first_pt last_pt trk =
     (let sec = get_section_loop first_pt last_pt trk 0 False []
      in if sec = [] then None else Some sec)"

text \<open>
  The candidate points \<^verbatim>\<open>inter2\<close> of the secondary track, and among them the
  \<^verbatim>\<open>intersections\<close>, where the run of candidates is broken before or after.
\<close>

definition THRESHOLD :: real where "THRESHOLD = TRACK_WIDTH * 2"

definition near_primary :: "segment list \<Rightarrow> segment \<Rightarrow> bool" where
  "near_primary track1 s \<longleftrightarrow>
     length (filter (\<lambda>p. norm2 (pt_xy (snd p)) (pt_xy (snd s)) \<le> TRACK_WIDTH / 3.5) track1) \<ge> 1"

definition inter2_of :: "segment list \<Rightarrow> segment list \<Rightarrow> xy_pair list" where
  "inter2_of track1 track2 = map seg_xy (filter (near_primary track1) track2)"

definition intersections_of :: "xy_pair list \<Rightarrow> xy_pair list" where
  "intersections_of inter2 =
     map (\<lambda>i. inter2 ! i)
       (filter (\<lambda>i. snd (py_nth inter2 (int i - 1)) \<noteq> fst (inter2 ! i) \<or>
                     snd (inter2 ! i) \<noteq> fst (inter2 ! ((i + 1) mod length inter2)))
          [0..<length inter2])"

text \<open>
  \<^verbatim>\<open>max_min_d\<close> of two sections: the largest distance from a point of \<open>sec1\<close> to the
  nearest point of \<open>sec2\<close>. \<open>list_min\<close> is \<^verbatim>\<open>.min()\<close>, used on non-empty lists.
\<close>

fun list_min :: "real list \<Rightarrow> real" where
  "list_min [] = 0"
| "list_min (d # ds) = fold min ds d"

definition max_min_d :: "xy_pair list \<Rightarrow> xy_pair list \<Rightarrow> real" where
  "max_min_d sec1 sec2 =
     fold (\<lambda>point m. let dist = list_min (map (\<lambda>q. norm2 (snd q) point) sec2)
                       in if m < dist then dist else m)
       (map snd sec1) 0"

text \<open>
  The indices marked for deletion: for the \<open>i\<close>-th pair of consecutive intersections,
  every row of \<^verbatim>\<open>track2\<close> equal to a point of the secondary section, if the sections
  overlap.
\<close>

definition matching_idx :: "segment list \<Rightarrow> xy_pair \<Rightarrow> nat list" where
  "matching_idx track2 point = filter (\<lambda>j. seg_xy (track2 ! j) = point) [0..<length track2]"

definition section_removals ::
  "segment list \<Rightarrow> segment list \<Rightarrow> xy_pair list \<Rightarrow> nat \<Rightarrow> nat list" where
  "section_removals track1 track2 ints i =
     (let first_pt = snd (py_nth ints (int i - 1));
          last_pt = fst (ints ! i)
      in case (get_section first_pt last_pt track1, get_section first_pt last_pt track2) of
           (Some sec1, Some sec2) \<Rightarrow>
             if max_min_d sec1 sec2 < THRESHOLD * 2
             then concat (map (matching_idx track2) sec2) else []
         | _ \<Rightarrow> [])"

definition removed_idx :: "segment list \<Rightarrow> segment list \<Rightarrow> nat list" where
  "removed_idx track1 track2 =
     (let ints = intersections_of (inter2_of track1 track2)
      in concat (map (section_removals track1 track2 ints) [0..<length ints]))"

text \<open>\<^verbatim>\<open>np.delete(xs, removed, axis=0)\<close>.\<close>

definition np_delete :: "'a list \<Rightarrow> nat list \<Rightarrow> 'a list" where
  "np_delete xs removed = map snd (filter (\<lambda>(j, x). j \<notin> set removed) (enumerate 0 xs))"

text \<open>
  \<^verbatim>\<open>_remove_roads\<close>: \<^verbatim>\<open>self.tracks[1]\<close> raises when there is one track only, and
  \<^verbatim>\<open>track[:,:,[2,3]]\<close> raises on an empty track.
\<close>

definition remove_roads ::
  "'a config_scheme \<Rightarrow> segment list list \<Rightarrow> py_error + segment list list" where
  "remove_roads self tracks =
     (if num_tracks self > 1 then
        (if length tracks < 2 then Inl IndexError
         else let track1 = tracks ! 0; track2 = tracks ! 1
              in if track1 = [] \<or> track2 = [] then Inl IndexError
                 else Inr (tracks[0 := track1, 1 := np_delete track2 (removed_idx track1 track2)]))
      else Inr tracks)"

subsection \<open>Track creation\<close>

text \<open>
  The loop \<^verbatim>\<open>for _ in range(self.num_tracks)\<close> of \<^verbatim>\<open>_create_track\<close>: \<open>n\<close> tracks are
  still to be built and \<open>t\<close> are built; each \<^verbatim>\<open>_get_track\<close> takes \<open>2 * CHECKPOINTS\<close>
  samples of the seeded source. \<open>None\<close> is \<^verbatim>\<open>return track\<close> with \<^verbatim>\<open>track\<close> false.
\<close>

fun get_tracks :: "(nat \<Rightarrow> real) \<Rightarrow> nat \<Rightarrow> nat \<Rightarrow> py_error + segment list list option" where
  "get_tracks rnd 0 t = Inr (Some [])"
| "get_tracks rnd (Suc n) t =
     (case get_track (\<lambda>k. rnd (k + 2 * CHECKPOINTS * t)) of
        Inl e \<Rightarrow> Inl e
      | Inr None \<Rightarrow> Inr None
      | Inr (Some trk) \<Rightarrow>
          (case get_tracks rnd n (Suc t) of
             Inl e \<Rightarrow> Inl e
           | Inr None \<Rightarrow> Inr None
           | Inr (Some trks) \<Rightarrow> Inr (Some (trk # trks))))"

text \<open>
  From \<^verbatim>\<open>self._remove_roads()\<close> to \<^verbatim>\<open>self._set_lanes()\<close>: the tracks and the \<open>info\<close>
  array. \<^verbatim>\<open>np.concatenate\<close> raises on an empty list of tracks.
\<close>

definition annotate_tracks ::
  "'a config_scheme \<Rightarrow> segment list list \<Rightarrow> nat list \<Rightarrow> (nat \<Rightarrow> bool)
     \<Rightarrow> py_error + segment list list \<times> seg_info list" where
  "annotate_tracks self tracks changes draws =
     (case remove_roads self tracks of
        Inl e \<Rightarrow> Inl e
      | Inr tracks' \<Rightarrow>
          if tracks' = [] then Inl ValueError
          else let trackc = concat tracks'
               in case create_info tracks' trackc of
                    Inl e \<Rightarrow> Inl e
                  | Inr info \<Rightarrow>
                      (case set_lanes self trackc info changes draws of
                         Inl e \<Rightarrow> Inl e
                       | Inr info' \<Rightarrow> Inr (tracks', info')))"

text \<open>
  \<^verbatim>\<open>_create_track\<close> up to the border flags: the tracks, \<open>info\<close> and one list of flags for
  each track. The polygons and the tiles of the physics engine, with the obstacle drawn
  for each tile from \<^verbatim>\<open>np.random.binomial\<close>, are not part of the model.
\<close>

definition create_track ::
  "'a config_scheme \<Rightarrow> (nat \<Rightarrow> real) \<Rightarrow> nat list \<Rightarrow> (nat \<Rightarrow> bool)
     \<Rightarrow> py_error + (segment list list \<times> seg_info list \<times> bool list list) option" where
  "create_track self rnd changes draws =
     (case get_tracks rnd (nat (num_tracks self)) 0 of
        Inl e \<Rightarrow> Inl e
      | Inr None \<Rightarrow> Inr None
      | Inr (Some tracks) \<Rightarrow>
          (case annotate_tracks self tracks changes draws of
             Inl e \<Rightarrow> Inl e
           | Inr (tracks', info) \<Rightarrow>
               (case fold_err (\<lambda>trk bs. case track_border trk of
                                           Inl e \<Rightarrow> Inl e | Inr b \<Rightarrow> Inr (bs @ [b])) tracks' [] of
                  Inl e \<Rightarrow> Inl e
                | Inr borders \<Rightarrow> Inr (Some (tracks', info, borders)))))"

subsection \<open>Invariants of the lane-toggling loop\<close>

text \<open>
  \<open>lanes_ok todo info\<close>: every row has a lane present, and the rows still to be visited
  have both. \<open>lanes_wf\<close>: the lane index is 0 or 1 and every row has two lane slots.
\<close>

definition lanes_ok :: "nat set \<Rightarrow> seg_info list \<Rightarrow> bool" where
  "lanes_ok todo info \<longleftrightarrow>
     (\<forall>j < length info. (j \<in> todo \<longrightarrow> info_lanes (info ! j) = [True, True]) \<and>
                       True \<in> set (info_lanes (info ! j)))"

definition lanes_wf :: "lane_state \<Rightarrow> bool" where
  "lanes_wf st \<longleftrightarrow> (case st of (rm, lane, k, info) \<Rightarrow>
      lane < 2 \<and> (\<forall>j < length info. length (info_lanes (info ! j)) = 2))"

subsection \<open>Concrete inputs\<close>

text \<open>
  Two closed two-point loops: the points \<open>pa\<close>, \<open>pb\<close> of the primary track and
  \<open>pc\<close>, \<open>pd\<close> of the secondary one, as \<^verbatim>\<open>_get_track\<close> pairs them
  (\<^verbatim>\<open>[track[-1], track[0]], [track[0], track[1]]\<close>).
\<close>

definition pa :: track_point where "pa = (0, 0, 1, 0)"
definition pb :: track_point where "pb = (1, 0, 0, 1)"
definition pc :: track_point where "pc = (0, 0, 5, 0)"
definition pd :: track_point where "pd = (1, 0, 0, 5)"

text \<open>
  A closed track of eight segments whose heading grows by \<open>0.1\<close> on segments 2 to 5 and
  is constant on segments 1, 6 and 7; segment 0 closes the loop.
\<close>

definition turn_points :: "track_point list" where
  "turn_points = [(0, 0, 0, 0), (0, 0, 1, 0), (0, 0.1, 2, 0), (0, 0.2, 3, 0),
                  (0, 0.3, 4, 0), (0, 0.4, 5, 0), (0, 0.4, 6, 0), (0, 0.4, 7, 0)]"

definition turn_track :: "segment list" where
  "turn_track = map (\<lambda>i. (py_nth turn_points (int i - 1), turn_points ! i)) [0..<8]"

text \<open>
  A raw walk of five points whose \<open>alpha\<close> rises above \<open>start_alpha\<close> at indices 1 and 4.
\<close>

definition walk_points :: "track_point list" where
  "walk_points = [(-1, 0, 0, 0), (0, 0, 1, 0), (1, 0, 2, 0), (-1, 0, 3, 0), (0, 0, 4, 0)]"

text \<open>
  A segment that ends on the negative \<open>x\<close> axis, where \<^verbatim>\<open>atan2\<close> gives \<open>alpha = pi\<close>, with
  both lanes present.
\<close>

definition west_segment :: segment where
  "west_segment = ((3, 0, -150, 1), (pi, 0, -150, 0))"

definition both_lanes :: seg_info where
  "both_lanes = zero_info\<lparr>info_lanes := [True, True]\<rparr>"

text \<open>
  A primary track through \<open>ra\<close>, \<open>rn\<close>, \<open>rb\<close> and a secondary track through
  \<open>ra\<close>, \<open>rn\<close>, \<open>rb\<close>, \<open>rd\<close>: they share the arc from \<open>ra\<close> to \<open>rn\<close>.
\<close>

definition ra :: track_point where "ra = (0, 0, 30, 0)"
definition rn :: track_point where "rn = (0, 0, 40, 0)"
definition rb :: track_point where "rb = (0, 0, 0, 30)"
definition rd :: track_point where "rd = (0, 0, 0, 100)"

definition primary_track :: "segment list" where
  "primary_track = [(rb, ra), (ra, rn), (rn, rb)]"

definition secondary_track :: "segment list" where
  "secondary_track = [(rd, ra), (ra, rn), (rn, rb), (rb, rd)]"

text \<open>
  Two raw walks with crossings at indices 1 and 4, as \<open>walk_points\<close>. In \<open>skew_points\<close>
  the extracted points are displaced along the heading of the first one, in
  \<open>flat_points\<close> along its normal.
\<close>

definition skew_points :: "track_point list" where
  "skew_points = [(-1, 0, 0, 0), (0, pi / 4, 1, 0), (1, 0, 5, -4), (-1, 0, 3, 0), (0, 0, 4, 0)]"

definition flat_points :: "track_point list" where
  "flat_points = [(-1, 0, 0, 0), (0, pi / 4, 3, 3), (1, 0, 0, 0), (-1, 0, 3, 0), (0, 0, 4, 0)]"

definition two_tracks :: "segment list list" where
  "two_tracks = [[(pb, pa), (pa, pb)], [(pd, pc), (pc, pd)]]"

definition default_config :: config where
  "default_config = \<lparr>num_lanes_changes = 3, num_tracks = 2, num_lanes = 2, prob_obstacle = 0.1\<rparr>"

section \<open>Verified properties\<close>

subsection \<open>Lane presence\<close>

lemma set_track_slice_lanes:
  "map info_lanes (set_track_slice lo hi i info) = map info_lanes info"
  by (auto simp: set_track_slice_def list_eq_iff_nth_eq nth_enumerate_eq)

lemma update_field_lanes:
  assumes "info_lanes r = info_lanes (info ! pos)"
  shows "map info_lanes (info[pos := r]) = map info_lanes info"
proof (cases "pos < length info")
  case True
  then show ?thesis using assms by (simp add: map_update list_update_same_conv)
next
  case False
  then show ?thesis by (simp add: list_update_beyond)
qed

lemma mark_end_start_lanes:
  "map info_lanes (mark_end_start trk pl info j) = map info_lanes info"
  by (simp add: mark_end_start_def Let_def update_field_lanes)

lemma fold_mark_lanes:
  "map info_lanes (fold (\<lambda>j inf. mark_end_start trk pl inf j) js info) = map info_lanes info"
  by (induction js arbitrary: info) (simp_all add: mark_end_start_lanes)

lemma annotate_track_lanes:
  "map info_lanes (annotate_track tracks info i) = map info_lanes info"
  by (simp add: annotate_track_def Let_def fold_mark_lanes set_track_slice_lanes)

lemma fold_annotate_lanes:
  "map info_lanes (fold (\<lambda>i inf. annotate_track tracks inf i) is info) = map info_lanes info"
  by (induction "is" arbitrary: info) (simp_all add: annotate_track_lanes)

lemma initial_info_lanes:
  "map info_lanes (initial_info tracks) = replicate (sum_list (map length tracks)) [True, True]"
  by (simp add: initial_info_def map_replicate)

lemma create_info_lanes:
  assumes "create_info tracks trackc = Inr info"
  shows "map info_lanes info = replicate (sum_list (map length tracks)) [True, True]"
proof -
  let ?pre = "fold (\<lambda>i inf. annotate_track tracks inf i) [1..<length tracks] (initial_info tracks)"
  from assms obtain ks where
    info: "info = map (\<lambda>(k, r). if k \<in> set ks then r\<lparr>info_intersection := True\<rparr> else r)
                    (enumerate 0 ?pre)"
    by (auto simp: create_info_def Let_def split: if_splits sum.splits)
  have "map info_lanes info = map info_lanes ?pre"
    unfolding info by (auto simp: list_eq_iff_nth_eq nth_enumerate_eq)
  then show ?thesis by (simp add: fold_annotate_lanes initial_info_lanes)
qed

lemma set_lanes_step_shape:
  assumes "set_lanes_step changes draws i (rm, lane, k, info) = Inr (rm', lane', k', info')"
    and "info_lanes (info ! i) = [True, True]"
  shows "length info' = length info" and "i < length info"
    and "\<forall>j. j \<noteq> i \<longrightarrow> info' ! j = info ! j"
    and "info_lanes (info' ! i) \<in> {[True, True], [False, True], [True, False]}"
proof -
  from assms(1) show len: "i < length info"
    by (auto simp: set_lanes_step_def Let_def split: if_splits)
  from assms(1) show "length info' = length info"
    by (auto simp: set_lanes_step_def Let_def split: if_splits)
  from assms(1) show "\<forall>j. j \<noteq> i \<longrightarrow> info' ! j = info ! j"
    by (auto simp: set_lanes_step_def Let_def split: if_splits)
  from assms len show "info_lanes (info' ! i) \<in> {[True, True], [False, True], [True, False]}"
    by (auto simp: set_lanes_step_def Let_def split: if_splits nat.splits)
qed

lemma set_lanes_step_ok:
  assumes "set_lanes_step changes draws i (rm, lane, k, info) = Inr (rm', lane', k', info')"
    and "lanes_ok (insert i todo) info" and "i \<notin> todo"
  shows "lanes_ok todo info'"
proof -
  from assms(1) have len: "i < length info"
    by (auto simp: set_lanes_step_def Let_def split: if_splits)
  from assms(2) len have li: "info_lanes (info ! i) = [True, True]"
    by (simp add: lanes_ok_def)
  note sh = set_lanes_step_shape [OF assms(1) li]
  show ?thesis
    unfolding lanes_ok_def
  proof (intro allI impI)
    fix j assume j: "j < length info'"
    show "(j \<in> todo \<longrightarrow> info_lanes (info' ! j) = [True, True]) \<and>
          True \<in> set (info_lanes (info' ! j))"
    proof (cases "j = i")
      case True
      with sh(4) assms(3) show ?thesis by auto
    next
      case False
      with sh(1,3) j assms(2) show ?thesis by (simp add: lanes_ok_def)
    qed
  qed
qed

lemma set_lanes_loop_ok:
  assumes "set_lanes_loop changes draws is st = Inr st'"
    and "lanes_ok (set is) (snd (snd (snd st)))" and "distinct is"
  shows "lanes_ok {} (snd (snd (snd st')))"
  using assms
proof (induction "is" arbitrary: st)
  case Nil
  then show ?case by simp
next
  case (Cons i "is")
  obtain rm lane k info where st: "st = (rm, lane, k, info)" by (cases st) auto
  from Cons.prems(1) obtain st1 where
    s1: "set_lanes_step changes draws i st = Inr st1"
    and s2: "set_lanes_loop changes draws is st1 = Inr st'"
    by (auto split: sum.splits)
  obtain rm1 lane1 k1 info1 where st1: "st1 = (rm1, lane1, k1, info1)" by (cases st1) auto
  have "lanes_ok (set is) info1"
    using set_lanes_step_ok [of changes draws i rm lane k info rm1 lane1 k1 info1 "set is"]
      s1 Cons.prems(2,3) st st1 by simp
  with Cons.IH [OF s2] Cons.prems(3) st1 show ?case by simp
qed

lemma set_lanes_step_total:
  assumes "lanes_wf st" and "i < length (snd (snd (snd st)))"
  shows "\<exists>st'. set_lanes_step changes draws i st = Inr st' \<and> lanes_wf st' \<and>
           length (snd (snd (snd st'))) = length (snd (snd (snd st)))"
proof -
  obtain rm lane k info where st: "st = (rm, lane, k, info)" by (cases st) auto
  with assms have a: "lane < 2" "i < length info" "length (info_lanes (info ! i)) = 2"
    and b: "\<forall>j < length info. length (info_lanes (info ! j)) = 2"
    by (auto simp: lanes_wf_def)
  show ?thesis
    unfolding st set_lanes_step_def Let_def using a b
    by (auto simp: lanes_wf_def nth_list_update)
qed

lemma set_lanes_loop_total:
  assumes "lanes_wf st" and "\<forall>i \<in> set is. i < length (snd (snd (snd st)))"
  shows "\<exists>st'. set_lanes_loop changes draws is st = Inr st'"
  using assms
proof (induction "is" arbitrary: st)
  case Nil
  then show ?case by (simp del: split_paired_Ex)
next
  case (Cons i "is")
  from set_lanes_step_total [of st i changes draws] Cons.prems
  obtain st1 where s1: "set_lanes_step changes draws i st = Inr st1" "lanes_wf st1"
    "length (snd (snd (snd st1))) = length (snd (snd (snd st)))"
    by auto
  with Cons.IH [of st1] Cons.prems(2) show ?case by auto
qed

lemma create_info_two_tracks:
  "create_info two_tracks (concat two_tracks) =
     Inr (map (\<lambda>t. zero_info\<lparr>info_track := t, info_lanes := [True, True]\<rparr>) [0, 1, 1, 1])"
  by (simp add: create_info_def initial_info_def annotate_track_def set_track_slice_def
      mark_end_start_def py_nth_def py_slice_bound_def boundary_points_def zero_info_def Let_def
      enumerate_eq_zip upt_conv_Cons eval_nat_numeral two_tracks_def pa_def pb_def pc_def pd_def)

text \<open>
  C4: after \<^verbatim>\<open>_create_info\<close> every row of \<open>info\<close> has a lane present; for every
  configuration and every random draw \<^verbatim>\<open>_set_lanes\<close> returns on a non-empty track, and
  every row of its result still has a lane present.
\<close>

theorem lanes_never_empty:
  assumes "create_info tracks trackc = Inr info"
  shows "(\<forall>r \<in> set info. True \<in> set (info_lanes r)) \<and>
         (trackc \<noteq> [] \<longrightarrow> (\<exists>info'. set_lanes self trackc info changes draws = Inr info')) \<and>
         (\<forall>info'. set_lanes self trackc info changes draws = Inr info' \<longrightarrow>
                   (\<forall>r \<in> set info'. True \<in> set (info_lanes r)))"
proof -
  have lanes: "map info_lanes info = replicate (sum_list (map length tracks)) [True, True]"
    by (rule create_info_lanes [OF assms])
  have each: "info_lanes (info ! j) = [True, True]" if "j < length info" for j
  proof -
    have "map info_lanes info ! j = [True, True]"
      using that lanes by (metis length_map length_replicate nth_replicate)
    with that show ?thesis by simp
  qed
  have len: "length trackc = length info"
    using assms by (auto simp: create_info_def Let_def split: if_splits sum.splits)
  have init: "\<forall>r \<in> set info. True \<in> set (info_lanes r)"
    using each by (metis in_set_conv_nth list.set_intros(1))
  have total: "\<exists>info'. set_lanes self trackc info changes draws = Inr info'" if "trackc \<noteq> []"
  proof -
    have "lanes_wf (0, 0, 0, info)" using each by (simp add: lanes_wf_def)
    from set_lanes_loop_total [OF this, of "[0..<length trackc]" changes draws] len
    obtain st' where "set_lanes_loop changes draws [0..<length trackc] (0, 0, 0, info) = Inr st'"
      by auto
    with that show ?thesis by (cases st') (auto simp: set_lanes_def)
  qed
  have after: "\<forall>r \<in> set info'. True \<in> set (info_lanes r)"
    if run: "set_lanes self trackc info changes draws = Inr info'" for info'
  proof (cases "num_lanes_changes self > 0 \<and> num_lanes self > 1")
    case False
    with run init show ?thesis by (auto simp: set_lanes_def)
  next
    case True
    with run obtain rm lane k where
      loop: "set_lanes_loop changes draws [0..<length trackc] (0, 0, 0, info) = Inr (rm, lane, k, info')"
      by (auto simp: set_lanes_def split: if_splits sum.splits)
    have "lanes_ok (set [0..<length trackc]) info"
      using each by (simp add: lanes_ok_def)
    from set_lanes_loop_ok [OF loop] this have "lanes_ok {} info'" by simp
    then show ?thesis by (auto simp: lanes_ok_def in_set_conv_nth)
  qed
  from init total after show ?thesis by blast
qed

theorem lanes_never_empty_witness:
  "create_info two_tracks (concat two_tracks) =
     Inr (map (\<lambda>t. zero_info\<lparr>info_track := t, info_lanes := [True, True]\<rparr>) [0, 1, 1, 1]) \<and>
   set_lanes default_config (concat two_tracks)
     (map (\<lambda>t. zero_info\<lparr>info_track := t, info_lanes := [True, True]\<rparr>) [0, 1, 1, 1])
     [1, 3, 1] (\<lambda>k. True) =
     Inr [zero_info\<lparr>info_track := 0, info_lanes := [True, True]\<rparr>,
          zero_info\<lparr>info_track := 1, info_lanes := [True, False]\<rparr>,
          zero_info\<lparr>info_track := 1, info_lanes := [True, False]\<rparr>,
          zero_info\<lparr>info_track := 1, info_lanes := [True, True]\<rparr>] \<and>
   map (\<lambda>r. True \<in> set (info_lanes r))
     [zero_info\<lparr>info_track := 0, info_lanes := [True, True]\<rparr>,
      zero_info\<lparr>info_track := 1, info_lanes := [True, False]\<rparr>,
      zero_info\<lparr>info_track := 1, info_lanes := [True, False]\<rparr>,
      zero_info\<lparr>info_track := 1, info_lanes := [True, True]\<rparr>] = [True, True, True, True]"
proof -
  note c = create_info_two_tracks
  have s: "set_lanes default_config (concat two_tracks)
     (map (\<lambda>t. zero_info\<lparr>info_track := t, info_lanes := [True, True]\<rparr>) [0, 1, 1, 1])
     [1, 3, 1] (\<lambda>k. True) =
     Inr [zero_info\<lparr>info_track := 0, info_lanes := [True, True]\<rparr>,
          zero_info\<lparr>info_track := 1, info_lanes := [True, False]\<rparr>,
          zero_info\<lparr>info_track := 1, info_lanes := [True, False]\<rparr>,
          zero_info\<lparr>info_track := 1, info_lanes := [True, True]\<rparr>]"
    by (simp add: set_lanes_def set_lanes_step_def Let_def upt_conv_Cons zero_info_def
        default_config_def two_tracks_def)
  from lanes_never_empty [OF c, of default_config "[1, 3, 1]" "\<lambda>k. True"] c s
  show ?thesis by simp
qed

subsection \<open>Track identifiers\<close>

lemma update_field_track:
  assumes "info_track r = info_track (info ! pos)"
  shows "map info_track (info[pos := r]) = map info_track info"
proof (cases "pos < length info")
  case True
  then show ?thesis using assms by (simp add: map_update list_update_same_conv)
next
  case False
  then show ?thesis by (simp add: list_update_beyond)
qed

lemma mark_end_start_track:
  "map info_track (mark_end_start trk pl info j) = map info_track info"
  by (simp add: mark_end_start_def Let_def update_field_track)

lemma fold_mark_track:
  "map info_track (fold (\<lambda>j inf. mark_end_start trk pl inf j) js info) = map info_track info"
  by (induction js arbitrary: info) (simp_all add: mark_end_start_track)

lemma set_track_slice_track:
  "map info_track (set_track_slice lo hi i info) =
     map (\<lambda>k. if py_slice_bound (length info) lo \<le> k \<and> k < py_slice_bound (length info) hi
               then i else info_track (info ! k)) [0..<length info]"
  by (rule nth_equalityI) (simp_all add: set_track_slice_def nth_enumerate_eq)

lemma create_info_two_track_ids:
  assumes "create_info [t0, t1] trackc = Inr info" and "t0 \<noteq> []"
  shows "map info_track info = replicate (length t0 - 1) 0 @ replicate (length t1 + 1) 1"
proof -
  let ?pre = "annotate_track [t0, t1] (initial_info [t0, t1]) 1"
  from assms(1) obtain ks where
    info: "info = map (\<lambda>(k, r). if k \<in> set ks then r\<lparr>info_intersection := True\<rparr> else r)
                    (enumerate 0 ?pre)"
    by (auto simp: create_info_def Let_def upt_conv_Cons split: if_splits sum.splits)
  have "map info_track info = map info_track ?pre"
    unfolding info by (auto simp: list_eq_iff_nth_eq nth_enumerate_eq)
  also have "\<dots> = map (\<lambda>k. if length t0 - 1 \<le> k then 1 else 0) [0..<length t0 + length t1]"
  proof -
    have len: "length (initial_info [t0, t1]) = length t0 + length t1"
      by (simp add: initial_info_def)
    have z: "info_track (initial_info [t0, t1] ! k) = 0" if "k < length t0 + length t1" for k
      using that by (simp add: initial_info_def zero_info_def)
    have lo: "py_slice_bound (length t0 + length t1) (int (length t0) - 1) = length t0 - 1"
      using assms(2) by (cases t0) (auto simp: py_slice_bound_def)
    have hi: "py_slice_bound (length t0 + length t1) (int (length t0) + int (length t1)) =
        length t0 + length t1"
      by (simp add: py_slice_bound_def)
    show ?thesis
      by (rule nth_equalityI)
        (simp_all add: annotate_track_def Let_def fold_mark_track set_track_slice_track len z lo hi)
  qed
  also have "\<dots> = replicate (length t0 - 1) 0 @ replicate (length t1 + 1) 1"
    using assms(2) by (intro nth_equalityI) (auto simp: nth_append nth_Cons split: nat.splits)
  finally show ?thesis .
qed

text \<open>
  C7 says that every row of \<open>info\<close> carries the index of the track its segment came
  from. The slice \<^verbatim>\<open>info[len(self.tracks[i-1])-1 : ...]['track'] = i\<close> starts one row too
  early: with the two two-segment tracks \<open>two_tracks\<close>, row 1 is the last segment of the
  primary track (index 0) and gets track identifier 1. (For any two tracks the identifiers
  are as \<open>create_info_two_track_ids\<close> says.)
\<close>

theorem create_info_track_id_of_last_primary_segment:
  "concat two_tracks ! 1 = two_tracks ! 0 ! 1 \<and>
   (case create_info two_tracks (concat two_tracks) of
      Inl e \<Rightarrow> None | Inr info \<Rightarrow> Some (map info_track info)) = Some [0, 1, 1, 1]"
  by (simp add: create_info_two_tracks) (simp add: two_tracks_def zero_info_def)

subsection \<open>Border flags\<close>

lemma flags_le_refl: "flags_le b b"
  by (simp add: flags_le_def)

lemma flags_le_trans: "flags_le a b \<Longrightarrow> flags_le b c \<Longrightarrow> flags_le a c"
  by (auto simp: flags_le_def)

lemma py_index_before:
  assumes "i < n" and "neg \<le> n"
  shows "py_index n (int i - int neg) = Inr (before n i neg)"
proof (cases "neg \<le> i")
  case True
  then have "(int i - int neg) mod int n = int i - int neg"
    using assms by (intro mod_pos_pos_trivial) auto
  with True assms show ?thesis by (auto simp: py_index_def before_def)
next
  case False
  then have neg: "int i - int neg < 0" by simp
  have "(int i - int neg) mod int n = (int i - int neg + int n) mod int n"
    by simp
  also have "\<dots> = int i - int neg + int n"
    using assms neg by (intro mod_pos_pos_trivial) auto
  finally show ?thesis using neg assms by (auto simp: py_index_def before_def)
qed

lemma before_less: "0 < n \<Longrightarrow> before n i neg < n"
  by (simp add: before_def nat_less_iff)

lemma border_or_ok:
  assumes "i < length b" and "neg \<le> length b"
  shows "\<exists>b'. border_or i neg b = Inr b' \<and> flags_le b b' \<and>
           (b ! i \<longrightarrow> b' ! before (length b) i neg)"
proof -
  have k: "before (length b) i neg < length b"
    using assms(1) by (intro before_less) auto
  show ?thesis
    using assms k
    by (auto simp: border_or_def py_index_before flags_le_def nth_list_update)
qed

lemma border_extend_at_ok:
  assumes "i < length b" and "\<forall>neg \<in> set negs. neg \<le> length b"
  shows "\<exists>b'. fold_err (border_or i) negs b = Inr b' \<and> flags_le b b' \<and>
           (b ! i \<longrightarrow> (\<forall>neg \<in> set negs. b' ! before (length b) i neg))"
  using assms
proof (induction negs arbitrary: b)
  case Nil
  then show ?case by (simp add: flags_le_refl)
next
  case (Cons neg negs)
  from border_or_ok [of i b neg] Cons.prems obtain b1 where
    s1: "border_or i neg b = Inr b1" "flags_le b b1" "b ! i \<longrightarrow> b1 ! before (length b) i neg"
    by auto
  then have len: "length b1 = length b" by (simp add: flags_le_def)
  from Cons.IH [of b1] Cons.prems len obtain b' where
    s2: "fold_err (border_or i) negs b1 = Inr b'" "flags_le b1 b'"
      "b1 ! i \<longrightarrow> (\<forall>n \<in> set negs. b' ! before (length b) i n)"
    by auto
  have "0 < length b" using Cons.prems(1) by auto
  then have k: "before (length b) i neg < length b1"
    using len by (simp add: before_less)
  have "b ! i \<longrightarrow> b' ! before (length b) i neg"
    using s1(3) s2(2) k by (auto simp: flags_le_def)
  moreover have "b ! i \<longrightarrow> b1 ! i"
    using s1(2) Cons.prems(1) by (auto simp: flags_le_def)
  ultimately show ?case
    using s1 s2 flags_le_trans [OF s1(2) s2(2)] by auto
qed

lemma border_extend_ok:
  assumes "\<forall>i \<in> set is. i < length b" and "BORDER_MIN_COUNT - 1 \<le> length b"
  shows "\<exists>b'. fold_err border_extend_at is b = Inr b' \<and> flags_le b b' \<and>
           (\<forall>i \<in> set is. b ! i \<longrightarrow> (\<forall>neg < BORDER_MIN_COUNT. b' ! before (length b) i neg))"
  using assms
proof (induction "is" arbitrary: b)
  case Nil
  then show ?case by (simp add: flags_le_refl)
next
  case (Cons i "is")
  have negs: "\<forall>neg \<in> set [0..<BORDER_MIN_COUNT]. neg \<le> length b"
    using Cons.prems(2) by auto
  from border_extend_at_ok [of i b "[0..<BORDER_MIN_COUNT]"] Cons.prems(1) negs obtain b1 where
    s1: "border_extend_at i b = Inr b1" "flags_le b b1"
      "b ! i \<longrightarrow> (\<forall>neg < BORDER_MIN_COUNT. b1 ! before (length b) i neg)"
    by (auto simp: border_extend_at_def)
  then have len: "length b1 = length b" by (simp add: flags_le_def)
  from Cons.IH [of b1] Cons.prems len obtain b' where
    s2: "fold_err border_extend_at is b1 = Inr b'" "flags_le b1 b'"
      "\<forall>j \<in> set is. b1 ! j \<longrightarrow> (\<forall>neg < BORDER_MIN_COUNT. b' ! before (length b) j neg)"
    by auto
  have pos: "0 < length b" using Cons.prems(1) by auto
  have a: "b ! i \<longrightarrow> (\<forall>neg < BORDER_MIN_COUNT. b' ! before (length b) i neg)"
    using s1(3) s2(2) before_less [OF pos] len by (auto simp: flags_le_def)
  have b: "\<forall>j \<in> set is. b ! j \<longrightarrow> (\<forall>neg < BORDER_MIN_COUNT. b' ! before (length b) j neg)"
    using s2(3) s1(2) Cons.prems(1) by (auto simp: flags_le_def)
  from a b s1(1) s2(1) flags_le_trans [OF s1(2) s2(2)] show ?case by auto
qed

lemma length_border_first_pass_aux:
  "length (fold (\<lambda>i border. border[i := f i]) is b) = length b"
  by (induction "is" arbitrary: b) simp_all

lemma length_border_first_pass: "length (border_first_pass trk) = length trk"
  by (simp add: border_first_pass_def length_border_first_pass_aux)

lemma border_first_pass_turn_track: "border_first_pass turn_track = [False, False, False, False, False, True, False, False]"
  by (simp add: turn_track_def turn_points_def py_nth_def border_first_pass_def sustained_turn_def
      window_step_def BORDER_MIN_COUNT_def TRACK_TURN_RATE_def pt_beta_def Let_def 
      upt_conv_Cons eval_nat_numeral)

lemma border_extend_turn_track: "border_extend [False, False, False, False, False, True, False, False] =
    Inr [False, False, True, True, True, True, False, False]"
  by (simp add: border_extend_def border_extend_at_def border_or_def py_index_def
      BORDER_MIN_COUNT_def upt_conv_Cons)

text \<open>
  C6 says that the final flags are closed under the extend-backward rule: every flagged
  segment has its \<open>BORDER_MIN_COUNT - 1\<close> predecessors flagged. On \<open>turn_track\<close> the first
  pass flags segment 5 only, the second pass adds segments 2, 3 and 4, and segment 2 is
  flagged while its predecessor, segment 1, is not.
\<close>

theorem border_closed_backward_counterexample:
  "track_border turn_track = Inr [False, False, True, True, True, True, False, False] \<and>
   [False, False, True, True, True, True, False, False] ! 2 \<and>
   \<not> [False, False, True, True, True, True, False, False] ! before 8 2 1"
  by (simp add: track_border_def border_first_pass_turn_track border_extend_turn_track
      before_def)

text \<open>
  C6, amended: on a track of at least three segments the border computation returns, and
  every segment that the first pass flagged (the last of \<open>BORDER_MIN_COUNT\<close> consecutive
  sharp turns to one side) is flagged in the result together with each of its
  \<open>BORDER_MIN_COUNT - 1\<close> predecessors, indices taken modulo the track length.
\<close>

theorem border_extends_sustained_turns:
  assumes "3 \<le> length trk"
  shows "\<exists>border. track_border trk = Inr border \<and> length border = length trk \<and>
           (\<forall>i < length trk. border_first_pass trk ! i \<longrightarrow>
              (\<forall>neg < BORDER_MIN_COUNT. border ! before (length trk) i neg))"
proof -
  let ?b = "border_first_pass trk"
  have "BORDER_MIN_COUNT - 1 \<le> length ?b"
    using assms by (simp add: BORDER_MIN_COUNT_def length_border_first_pass)
  from border_extend_ok [of "[0..<length ?b]" ?b, OF _ this] obtain b' where
    "fold_err border_extend_at [0..<length ?b] ?b = Inr b'" "flags_le ?b b'"
    "\<forall>i \<in> set [0..<length ?b]. ?b ! i \<longrightarrow> (\<forall>neg < BORDER_MIN_COUNT. b' ! before (length ?b) i neg)"
    by auto
  then show ?thesis
    by (auto simp: track_border_def border_extend_def flags_le_def length_border_first_pass)
qed

theorem border_extends_sustained_turns_witness:
  "3 \<le> length turn_track \<and>
   track_border turn_track = Inr [False, False, True, True, True, True, False, False] \<and>
   border_first_pass turn_track ! 5 \<and>
   map (\<lambda>neg. [False, False, True, True, True, True, False, False] ! before 8 5 neg) [0, 1, 2, 3]
     = [True, True, True, True]"
  using border_extends_sustained_turns [of turn_track]
  by (simp add: track_border_def border_first_pass_turn_track border_extend_turn_track
      before_def) (simp add: turn_track_def)

subsection \<open>Loop extraction\<close>

lemma cs_upto_0: "cs_upto sa track 0 = []"
  by (simp add: cs_upto_def)

lemma cs_upto_Suc:
  "cs_upto sa track (Suc k) =
     cs_upto sa track k @ (if pass_through_start sa track (Suc k) then [Suc k] else [])"
  by (simp add: cs_upto_def)

lemma find_loop_second:
  assumes "i2 \<noteq> -1"
  shows "find_loop sa track i (-1) i2 =
     (if cs_upto sa track i = [] then None else Some (int (last (cs_upto sa track i)), i2))"
  using assms by (induction i) (simp_all add: cs_upto_0 cs_upto_Suc)

lemma find_loop_first:
  "find_loop sa track i (-1) (-1) =
     (if length (cs_upto sa track i) < 2 then None
      else Some (int (last (butlast (cs_upto sa track i))), int (last (cs_upto sa track i))))"
proof (induction i)
  case 0
  then show ?case by (simp add: cs_upto_0)
next
  case (Suc k)
  show ?case
  proof (cases "pass_through_start sa track (Suc k)")
    case True
    then show ?thesis
      by (simp add: cs_upto_Suc find_loop_second)
  next
    case False
    with Suc show ?thesis by (simp add: cs_upto_Suc)
  qed
qed

lemma two_nonempty: "2 \<le> length xs \<Longrightarrow> xs \<noteq> [] \<and> butlast xs \<noteq> []"
  by (cases xs rule: rev_cases) auto

lemma last_two_sorted:
  assumes "sorted_wrt (<) (xs :: nat list)" and "2 \<le> length xs"
  shows "last (butlast xs) < last xs"
proof -
  from assms(2) obtain ys b where xs: "xs = ys @ [b]"
    by (cases xs rule: rev_cases) auto
  with assms(2) obtain zs a where ys: "ys = zs @ [a]"
    by (cases ys rule: rev_cases) auto
  from assms(1) show ?thesis
    unfolding xs ys by (simp add: sorted_wrt_append butlast_append)
qed

lemma take_drop_nths:
  assumes "h \<le> length xs"
  shows "take (h - l) (drop l xs) = map (\<lambda>k. xs ! k) [l..<h]"
  using assms by (intro nth_equalityI) auto

lemma crossings_cs_upto:
  "track \<noteq> [] \<Longrightarrow> crossings sa track = cs_upto sa track (length track - 1)"
  by (simp add: crossings_def cs_upto_def)

lemma start_alpha_bounds: "start_alpha < 0" "- 1 < start_alpha"
  using pi_gt_zero pi_less_4 by (simp_all add: start_alpha_def CHECKPOINTS_def)

lemma start_alpha_cmp [simp]:
  "start_alpha < 0" "start_alpha < 1" "- 1 \<le> start_alpha" "\<not> start_alpha < - 1"
  "\<not> 0 \<le> start_alpha" "\<not> 1 \<le> start_alpha"
  using start_alpha_bounds by simp_all

lemma crossings_walk_points: "crossings start_alpha walk_points = [1, 4]"
  by (simp add: crossings_def walk_points_def pass_through_start_def pt_alpha_def
      upt_conv_Cons eval_nat_numeral)

lemma slice_walk_points: "py_slice walk_points 1 3 = [(0, 0, 1, 0), (1, 0, 2, 0)]"
  by (simp add: py_slice_def py_slice_bound_def walk_points_def)

lemma well_glued_walk_points: "well_glued_together [(0, 0, 1, 0), (1, 0, 2, 0)] = 1"
  by (simp add: well_glued_together_def pt_beta_def pt_x_def pt_y_def)

lemma find_closed_loop_walk_points:
  "find_closed_loop start_alpha walk_points = Inr (Some (1, 4))"
  by (simp add: find_closed_loop_def walk_points_def pass_through_start_def pt_alpha_def
      eval_nat_numeral)

text \<open>
  C2 says that the extracted point sequence lies strictly between \<open>i1\<close> and \<open>i2\<close>. On
  \<open>walk_points\<close> the crossings are \<open>i1 = 1\<close> and \<open>i2 = 4\<close>, the generation succeeds, and
  the extracted sequence is \<^verbatim>\<open>track[1:3]\<close>: it holds the point at \<open>i1\<close> and lacks the point at
  index 3, which is strictly between.
\<close>

theorem loop_strictly_between_counterexample:
  "find_closed_loop start_alpha walk_points = Inr (Some (1, 4)) \<and>
   py_slice walk_points 1 (4 - 1) = [walk_points ! 1, walk_points ! 2] \<and>
   [walk_points ! 1, walk_points ! 2] \<noteq> [walk_points ! 2, walk_points ! 3] \<and>
   extract_loop start_alpha walk_points =
     Inr (Some [(walk_points ! 2, walk_points ! 1), (walk_points ! 1, walk_points ! 2)])"
proof -
  note f = find_closed_loop_walk_points
  show ?thesis
    by (simp add: f extract_loop_def slice_walk_points close_loop_def well_glued_walk_points
        TRACK_DETAIL_STEP_def SCALE_def pair_points_def py_nth_def upt_conv_Cons)
      (simp add: walk_points_def)
qed

text \<open>
  C2, amended: the extractor looks, from the end of the raw point sequence, for the indices
  \<open>i \<ge> 1\<close> where \<open>alpha\<close> at \<open>i\<close> is above \<open>start_alpha\<close> and \<open>alpha\<close> at \<open>i - 1\<close> is not.
  With fewer than two of them the generation fails. Otherwise \<open>i1 < i2\<close> are the two
  largest, and the extracted point sequence, on which the closure check and the pairing
  run, is \<^verbatim>\<open>track[i1:i2-1]\<close>, the points at \<open>i1, \<dots>, i2 - 2\<close>.
\<close>

theorem loop_window:
  assumes "track \<noteq> []"
  shows "(length (crossings sa track) < 2 \<longrightarrow>
            find_closed_loop sa track = Inr None \<and> extract_loop sa track = Inr None) \<and>
         (2 \<le> length (crossings sa track) \<longrightarrow>
            find_closed_loop sa track =
              Inr (Some (int (prev_crossing sa track), int (last_crossing sa track))) \<and>
            0 < prev_crossing sa track \<and>
            prev_crossing sa track < last_crossing sa track \<and>
            last_crossing sa track < length track \<and>
            py_slice track (int (prev_crossing sa track)) (int (last_crossing sa track) - 1) =
              map (\<lambda>k. track ! k) [prev_crossing sa track..<last_crossing sa track - 1] \<and>
            extract_loop sa track =
              close_loop (map (\<lambda>k. track ! k)
                [prev_crossing sa track..<last_crossing sa track - 1]))"
proof (intro conjI impI)
  assume few: "length (crossings sa track) < 2"
  then show f: "find_closed_loop sa track = Inr None"
    using assms by (simp add: find_closed_loop_def find_loop_first crossings_cs_upto)
  then show "extract_loop sa track = Inr None"
    by (simp add: extract_loop_def)
next
  assume two: "2 \<le> length (crossings sa track)"
  let ?cs = "crossings sa track"
  have ne: "?cs \<noteq> []" "butlast ?cs \<noteq> []" using two_nonempty [OF two] by auto
  have srt: "sorted_wrt (<) ?cs"
    by (simp add: crossings_def sorted_wrt_filter)
  have mem: "\<And>c. c \<in> set ?cs \<Longrightarrow> 0 < c \<and> c < length track"
    by (auto simp: crossings_def)
  show fcl: "find_closed_loop sa track =
      Inr (Some (int (prev_crossing sa track), int (last_crossing sa track)))"
  proof -
    have eq: "cs_upto sa track (length track - 1) = crossings sa track"
      using assms by (simp add: crossings_cs_upto)
    have "find_loop sa track (length track - 1) (-1) (-1) =
        Some (int (prev_crossing sa track), int (last_crossing sa track))"
      unfolding find_loop_first eq using two
      by (simp add: prev_crossing_def last_crossing_def)
    then show ?thesis using assms by (simp add: find_closed_loop_def)
  qed
  have "last (butlast ?cs) \<in> set ?cs"
    using ne by (meson in_set_butlastD last_in_set)
  then show "0 < prev_crossing sa track"
    using mem by (simp add: prev_crossing_def)
  show lt: "prev_crossing sa track < last_crossing sa track"
    using last_two_sorted [OF srt two] by (simp add: prev_crossing_def last_crossing_def)
  show hi: "last_crossing sa track < length track"
    using mem [of "last ?cs"] ne by (simp add: last_crossing_def)
  show sl: "py_slice track (int (prev_crossing sa track)) (int (last_crossing sa track) - 1) =
      map (\<lambda>k. track ! k) [prev_crossing sa track..<last_crossing sa track - 1]"
  proof -
    have l: "py_slice_bound (length track) (int (prev_crossing sa track)) = prev_crossing sa track"
      using lt hi by (simp add: py_slice_bound_def)
    have h: "py_slice_bound (length track) (int (last_crossing sa track) - 1) =
        last_crossing sa track - 1"
      using lt hi by (auto simp: py_slice_bound_def)
    have "take ((last_crossing sa track - 1) - prev_crossing sa track)
            (drop (prev_crossing sa track) track) =
          map (\<lambda>k. track ! k) [prev_crossing sa track..<last_crossing sa track - 1]"
      using hi by (intro take_drop_nths) simp
    then show ?thesis
      unfolding py_slice_def l h Let_def .
  qed
  show "extract_loop sa track =
      close_loop (map (\<lambda>k. track ! k) [prev_crossing sa track..<last_crossing sa track - 1])"
    by (simp add: extract_loop_def fcl sl)
qed

theorem loop_window_witness:
  "walk_points \<noteq> [] \<and> 2 \<le> length (crossings start_alpha walk_points) \<and>
   prev_crossing start_alpha walk_points = 1 \<and> last_crossing start_alpha walk_points = 4 \<and>
   find_closed_loop start_alpha walk_points = Inr (Some (1, 4)) \<and>
   py_slice walk_points 1 3 = [walk_points ! 1, walk_points ! 2] \<and>
   extract_loop start_alpha walk_points = close_loop [walk_points ! 1, walk_points ! 2]"
  using loop_window [of walk_points start_alpha]
  by (simp add: crossings_walk_points prev_crossing_def last_crossing_def upt_conv_Cons)
    (simp add: walk_points_def)

subsection \<open>Closure check and pairing\<close>

lemma py_nth_prev:
  assumes "i < length xs"
  shows "py_nth xs (int i - 1) = xs ! ((i + length xs - 1) mod length xs)"
proof (cases i)
  case 0
  with assms show ?thesis by (simp add: py_nth_def nat_diff_distrib')
next
  case (Suc k)
  with assms have "(i + length xs - 1) mod length xs = k"
    by simp
  with Suc show ?thesis by (simp add: py_nth_def)
qed

lemma pair_points_nth:
  assumes "i < length loop"
  shows "pair_points loop ! i = (loop ! ((i + length loop - 1) mod length loop), loop ! i)"
  using assms by (simp add: pair_points_def py_nth_prev)

text \<open>
  What the code checks: for a non-empty extracted point sequence, \<^verbatim>\<open>_get_track\<close> returns
  failure exactly when \<^verbatim>\<open>well_glued_together\<close> exceeds \<open>TRACK_DETAIL_STEP\<close>; otherwise
  it returns the pairs (point \<open>i - 1\<close>, point \<open>i\<close>) for every \<open>i\<close>, the first pair closing
  the loop from the last point.
\<close>

lemma closure_gap_check:
  assumes "find_closed_loop sa track = Inr (Some (i1, i2))"
    and "py_slice track i1 (i2 - 1) = loop" and "loop \<noteq> []"
  shows "(extract_loop sa track = Inr None \<longleftrightarrow> well_glued_together loop > TRACK_DETAIL_STEP) \<and>
         (\<not> well_glued_together loop > TRACK_DETAIL_STEP \<longrightarrow>
            extract_loop sa track = Inr (Some (pair_points loop)) \<and>
            length (pair_points loop) = length loop \<and>
            (\<forall>i < length loop.
               pair_points loop ! i = (loop ! ((i + length loop - 1) mod length loop), loop ! i)))"
  using assms by (simp add: extract_loop_def close_loop_def pair_points_nth) (simp add: pair_points_def)

lemma find_skew: "find_closed_loop start_alpha skew_points = Inr (Some (1, 4))"
  by (simp add: find_closed_loop_def skew_points_def pass_through_start_def pt_alpha_def
      eval_nat_numeral)

lemma slice_skew: "py_slice skew_points 1 3 = [(0, pi / 4, 1, 0), (1, 0, 5, -4)]"
  by (simp add: py_slice_def py_slice_bound_def skew_points_def)

lemma glued_skew: "well_glued_together [(0, pi / 4, 1, 0), (1, 0, 5, -4)] = 4"
proof -
  have "well_glued_together [(0, pi / 4, 1, 0), (1, 0, 5, -4)] = sqrt (4\<^sup>2)"
    by (simp add: well_glued_together_def pt_beta_def pt_x_def pt_y_def cos_45 sin_45
        power_mult_distrib power_divide)
  then show ?thesis by simp
qed

lemma perp_skew: "perp_jump [(0, pi / 4, 1, 0), (1, 0, 5, -4)] = 0"
  by (simp add: perp_jump_def pt_beta_def pt_x_def pt_y_def cos_45 sin_45)

lemma find_flat: "find_closed_loop start_alpha flat_points = Inr (Some (1, 4))"
  by (simp add: find_closed_loop_def flat_points_def pass_through_start_def pt_alpha_def
      eval_nat_numeral)

lemma slice_flat: "py_slice flat_points 1 3 = [(0, pi / 4, 3, 3), (1, 0, 0, 0)]"
  by (simp add: py_slice_def py_slice_bound_def flat_points_def)

lemma glued_flat: "well_glued_together [(0, pi / 4, 3, 3), (1, 0, 0, 0)] = 3"
proof -
  have "well_glued_together [(0, pi / 4, 3, 3), (1, 0, 0, 0)] = sqrt (3\<^sup>2)"
    by (simp add: well_glued_together_def pt_beta_def pt_x_def pt_y_def cos_45 sin_45
        power_mult_distrib power_divide)
  then show ?thesis by simp
qed

lemma perp_flat: "perp_jump [(0, pi / 4, 3, 3), (1, 0, 0, 0)] = 3 * sqrt 2"
  by (simp add: perp_jump_def pt_beta_def pt_x_def pt_y_def cos_45 sin_45)

lemma step_below: "TRACK_DETAIL_STEP < 3 * sqrt 2"
proof -
  have "(7 / 6 :: real)\<^sup>2 < 2" by (simp add: power2_eq_square)
  then have "7 / 6 < sqrt 2" by (rule real_less_rsqrt)
  then show ?thesis by (simp add: TRACK_DETAIL_STEP_def SCALE_def)
qed

text \<open>
  C3 says that the generation fails exactly when the displacement between the first and
  the last point, projected on the first point's heading-normal, exceeds one step. The
  code takes the square root of the sum of the squares of the two products
  \<open>cos beta * dx\<close> and \<open>sin beta * dy\<close> where the projection is the absolute value of their
  sum. On \<open>skew_points\<close> the projection is 0 and the generation fails, the measure being 4;
  on \<open>flat_points\<close> the projection is \<open>3 * sqrt 2\<close>, more than one step, and the
  generation succeeds, the measure being 3.
\<close>

theorem closure_check_is_not_the_projection:
  "extract_loop start_alpha skew_points = Inr None \<and>
   py_slice skew_points 1 (4 - 1) = [(0, pi / 4, 1, 0), (1, 0, 5, -4)] \<and>
   well_glued_together [(0, pi / 4, 1, 0), (1, 0, 5, -4)] = 4 \<and>
   perp_jump [(0, pi / 4, 1, 0), (1, 0, 5, -4)] = 0 \<and>
   0 < TRACK_DETAIL_STEP \<and> TRACK_DETAIL_STEP < 4 \<and>
   extract_loop start_alpha flat_points =
     Inr (Some (pair_points [(0, pi / 4, 3, 3), (1, 0, 0, 0)])) \<and>
   py_slice flat_points 1 (4 - 1) = [(0, pi / 4, 3, 3), (1, 0, 0, 0)] \<and>
   well_glued_together [(0, pi / 4, 3, 3), (1, 0, 0, 0)] = 3 \<and>
   perp_jump [(0, pi / 4, 3, 3), (1, 0, 0, 0)] = 3 * sqrt 2 \<and>
   TRACK_DETAIL_STEP < 3 * sqrt 2"
  using step_below
  by (simp add: extract_loop_def find_skew slice_skew close_loop_def glued_skew perp_skew
      find_flat slice_flat glued_flat perp_flat)
    (simp add: TRACK_DETAIL_STEP_def SCALE_def)

subsection \<open>Random point on the track\<close>

lemma rnd_offset_west: "rnd_offset pi True True True u = - (9 / 7) * TRACK_WIDTH + (16 / 7) * TRACK_WIDTH * u"
  by (simp add: rnd_offset_def uniform_def x_from_def x_to_def of_py_bool_def algebra_simps)

text \<open>
  C8 says that with \<^verbatim>\<open>border=True\<close> the lateral offset lies within
  \<open>[-TRACK_WIDTH * l, TRACK_WIDTH * r]\<close>. The margin is scaled by \<^verbatim>\<open>cos(alpha)\<close> and
  \<^verbatim>\<open>sin(alpha)\<close>, which are negative on parts of the track: on \<open>west_segment\<close>
  (\<open>alpha = pi\<close>, both lanes present) the sample \<open>u = 0.1\<close> gives the offset
  \<open>- (37 / 35) * TRACK_WIDTH\<close>, left of the left lane edge \<open>- TRACK_WIDTH\<close>.
\<close>

theorem rnd_offset_outside_lane:
  "get_rnd_point_in_track [west_segment] [both_lanes] True 0 0.1 =
     Inr [0, - 150 + - (37 / 35) * TRACK_WIDTH, 0] \<and>
   - (37 / 35) * TRACK_WIDTH < - TRACK_WIDTH * of_py_bool True"
  by (simp add: get_rnd_point_in_track_def west_segment_def both_lanes_def zero_info_def
      rnd_offset_west of_py_bool_def TRACK_WIDTH_def SCALE_def)

subsection \<open>Termination of the path walk\<close>

lemma scan_dest_total:
  "cps \<noteq> [] \<Longrightarrow> \<exists>failed d'. scan_dest cps alpha dest_i = Inr (failed, d')"
proof (induction cps alpha dest_i rule: scan_dest.induct)
  case (1 cps alpha dest_i)
  then show ?case
    by (auto simp: scan_dest.simps [of cps alpha dest_i])
qed

lemma scan_dest_found_le:
  "scan_dest cps alpha dest_i = Inr (False, d') \<Longrightarrow>
     dest_i \<le> d' \<and> alpha \<le> fst (cps ! (d' mod length cps))"
proof (induction cps alpha dest_i rule: scan_dest.induct)
  case (1 cps alpha dest_i)
  then show ?case
    by (auto simp: scan_dest.simps [of cps alpha dest_i] split: if_splits)
qed

lemma find_dest_total:
  assumes "cps \<noteq> []"
  shows "\<exists>alpha' d' k. find_dest cps alpha d = Inr (alpha', d') \<and> d \<le> d' \<and>
           alpha' = alpha - 2 * pi * real (k :: nat) \<and>
           alpha' \<le> fst (cps ! (d' mod length cps))"
  using assms
proof (induction cps alpha d rule: find_dest.induct)
  case (1 cps alpha dest_i)
  from scan_dest_total [OF "1.prems", of alpha dest_i] obtain failed d1 where
    sc: "scan_dest cps alpha dest_i = Inr (failed, d1)" by blast
  show ?case
  proof (cases failed)
    case False
    with sc scan_dest_found_le [of cps alpha dest_i d1]
    have "find_dest cps alpha dest_i = Inr (alpha, d1)" "dest_i \<le> d1"
      "alpha \<le> fst (cps ! (d1 mod length cps))" "alpha = alpha - 2 * pi * real (0 :: nat)"
      by (simp_all add: find_dest.simps [of cps alpha dest_i])
    then show ?thesis by blast
  next
    case True
    with sc have fd: "find_dest cps alpha dest_i = find_dest cps (alpha - 2 * pi) d1"
      by (simp add: find_dest.simps [of cps alpha dest_i])
    from True sc have lt: "dest_i < d1" using scan_dest_fail [of cps alpha dest_i d1] by simp
    from "1.IH" [OF sc refl _ "1.prems"] True obtain alpha' d' k where
      r: "find_dest cps (alpha - 2 * pi) d1 = Inr (alpha', d')" "d1 \<le> d'"
        "alpha' = alpha - 2 * pi - 2 * pi * real (k :: nat)"
        "alpha' \<le> fst (cps ! (d' mod length cps))"
      by auto
    have "alpha' = alpha - 2 * pi * real (Suc k)"
      using r(3) by (simp add: algebra_simps)
    with r fd lt show ?thesis
      by (intro exI [of _ alpha'] exI [of _ d'] exI [of _ "Suc k"]) simp
  qed
qed

lemma walk_body_total:
  assumes "cps \<noteq> []"
  shows "\<exists>st' p. walk_body cps st = Inr st' \<and> w_track st' = w_track st @ [p] \<and>
           w_dest_i st \<le> w_dest_i st'"
proof -
  define a0 where "a0 = atan2 (w_y st) (w_x st)"
  define a1 where "a1 = (if a0 < 0 then a0 + 2 * pi else a0)"
  from find_dest_total [OF assms, of a1 "w_dest_i st"] obtain alpha' d' where
    fd: "find_dest cps a1 (w_dest_i st) = Inr (alpha', d')" "w_dest_i st \<le> d'"
    by blast
  obtain da dx dy where cp: "cps ! (d' mod length cps) = (da, dx, dy)"
    by (cases "cps ! (d' mod length cps)") auto
  show ?thesis
    using fd cp unfolding walk_body_def Let_def a0_def [symmetric] a1_def [symmetric]
    by simp
qed

lemma walk_iter_length:
  "walk_iter cps n st = Inr st' \<Longrightarrow> cps \<noteq> [] \<Longrightarrow> length (w_track st') = length (w_track st) + n"
proof (induction n arbitrary: st)
  case 0
  then show ?case by simp
next
  case (Suc n)
  from walk_body_total [OF Suc.prems(2), of st] obtain st1 p where
    b: "walk_body cps st = Inr st1" "w_track st1 = w_track st @ [p]" by blast
  with Suc.prems have "walk_iter cps n st1 = Inr st'" by simp
  from Suc.IH [OF this Suc.prems(2)] b show ?case by simp
qed

lemma walk_loop_stops:
  assumes "cps \<noteq> []" and "1 \<le> no_freeze"
  shows "\<exists>N st'. 1 \<le> N \<and> N \<le> no_freeze \<and> walk_iter cps N st = Inr st' \<and>
           walk_loop cps no_freeze st = Inr (w_track st') \<and>
           (4 < w_laps st' \<or> N = no_freeze) \<and>
           (\<forall>k. 1 \<le> k \<and> k < N \<longrightarrow> (\<exists>s. walk_iter cps k st = Inr s \<and> w_laps s \<le> 4))"
  using assms
proof (induction cps no_freeze st rule: walk_loop.induct)
  case (1 cps no_freeze st)
  from walk_body_total [OF "1.prems"(1), of st] obtain st1 where
    b: "walk_body cps st = Inr st1" by blast
  show ?case
  proof (cases "4 < w_laps st1 \<or> no_freeze - 1 = 0")
    case True
    have "walk_loop cps no_freeze st = Inr (w_track st1)"
      using b True by (auto simp: walk_loop.simps [of cps no_freeze st])
    moreover have "walk_iter cps 1 st = Inr st1" using b by simp
    moreover have "4 < w_laps st1 \<or> 1 = no_freeze" using True "1.prems"(2) by auto
    ultimately show ?thesis
      using "1.prems"(2) by (intro exI [of _ 1] exI [of _ st1]) auto
  next
    case False
    then have nl: "\<not> 4 < w_laps st1" and nz: "no_freeze - 1 \<noteq> 0" by auto
    have wl: "walk_loop cps no_freeze st = walk_loop cps (no_freeze - 1) st1"
      using b nl nz by (simp add: walk_loop.simps [of cps no_freeze st])
    have ge: "1 \<le> no_freeze - 1" using nz by simp
    from "1.IH" [OF b nl nz "1.prems"(1) ge] obtain N st' where
      r: "1 \<le> N" "N \<le> no_freeze - 1" "walk_iter cps N st1 = Inr st'"
        "walk_loop cps (no_freeze - 1) st1 = Inr (w_track st')"
        "4 < w_laps st' \<or> N = no_freeze - 1"
        "\<forall>k. 1 \<le> k \<and> k < N \<longrightarrow> (\<exists>s. walk_iter cps k st1 = Inr s \<and> w_laps s \<le> 4)"
      by blast
    have it: "walk_iter cps (Suc k) st = walk_iter cps k st1" for k
      using b by simp
    have early: "\<exists>s. walk_iter cps k st = Inr s \<and> w_laps s \<le> 4" if "1 \<le> k" "k < Suc N" for k
    proof (cases "k = 1")
      case True
      with b nl show ?thesis by simp
    next
      case False
      with that obtain j where k: "k = Suc j" "1 \<le> j" "j < N"
        by (cases k) auto
      with r(6) it show ?thesis by simp
    qed
    have "4 < w_laps st' \<or> Suc N = no_freeze" using r(5) nz by auto
    with r wl it early show ?thesis
      by (intro exI [of _ "Suc N"] exI [of _ st']) auto
  qed
qed

text \<open>
  C9: for every non-empty list of checkpoints the search for the destination returns, its
  cursor never moves back and \<^verbatim>\<open>alpha\<close> is lowered by a multiple of \<open>2 * pi\<close>; every
  iteration of the walk appends exactly one point; and the walk returns after \<open>N\<close>
  iterations, \<open>1 \<le> N \<le> 2500\<close>, where \<open>N\<close> is the first iteration after which the lap
  counter exceeds 4, or 2500 if there is none. (Floats are modelled as reals.)
\<close>

theorem path_walk_terminates:
  assumes "cps \<noteq> []"
  shows "(\<forall>alpha d. \<exists>alpha' d' k. find_dest cps alpha d = Inr (alpha', d') \<and> d \<le> d' \<and>
            alpha' = alpha - 2 * pi * real (k :: nat)) \<and>
         (\<forall>st. \<exists>st' p. walk_body cps st = Inr st' \<and> w_track st' = w_track st @ [p]) \<and>
         (\<exists>N st'. 1 \<le> N \<and> N \<le> 2500 \<and> walk_iter cps N walk_start = Inr st' \<and>
            walk cps = Inr (w_track st') \<and> length (w_track st') = N \<and>
            (4 < w_laps st' \<or> N = 2500) \<and>
            (\<forall>k. 1 \<le> k \<and> k < N \<longrightarrow>
               (\<exists>s. walk_iter cps k walk_start = Inr s \<and> w_laps s \<le> 4)))"
proof (intro conjI allI)
  fix alpha d
  from find_dest_total [OF assms, of alpha d]
  show "\<exists>alpha' d' k. find_dest cps alpha d = Inr (alpha', d') \<and> d \<le> d' \<and>
            alpha' = alpha - 2 * pi * real (k :: nat)"
    by blast
next
  fix st
  from walk_body_total [OF assms, of st]
  show "\<exists>st' p. walk_body cps st = Inr st' \<and> w_track st' = w_track st @ [p]"
    by blast
next
  from walk_loop_stops [OF assms, of 2500 walk_start] obtain N st' where
    r: "1 \<le> N" "N \<le> 2500" "walk_iter cps N walk_start = Inr st'"
      "walk_loop cps 2500 walk_start = Inr (w_track st')"
      "4 < w_laps st' \<or> N = 2500"
      "\<forall>k. 1 \<le> k \<and> k < N \<longrightarrow> (\<exists>s. walk_iter cps k walk_start = Inr s \<and> w_laps s \<le> 4)"
    by auto
  have "length (w_track st') = N"
    using walk_iter_length [OF r(3) assms] by (simp add: walk_start_def)
  with r show "\<exists>N st'. 1 \<le> N \<and> N \<le> 2500 \<and> walk_iter cps N walk_start = Inr st' \<and>
            walk cps = Inr (w_track st') \<and> length (w_track st') = N \<and>
            (4 < w_laps st' \<or> N = 2500) \<and>
            (\<forall>k. 1 \<le> k \<and> k < N \<longrightarrow>
               (\<exists>s. walk_iter cps k walk_start = Inr s \<and> w_laps s \<le> 4))"
    unfolding walk_def by blast
qed

lemma make_checkpoints_nonempty: "make_checkpoints rnd \<noteq> []"
  by (simp add: make_checkpoints_def CHECKPOINTS_def)

lemma make_checkpoints_first: "make_checkpoints rnd ! 0 = (0, 225, 0)"
  by (simp add: make_checkpoints_def CHECKPOINTS_def checkpoint_at_def Let_def TRACK_RAD_def
      SCALE_def)

lemma first_step:
  "walk_body (make_checkpoints rnd) walk_start =
     Inr \<lparr>w_x = 225, w_y = 3.5, w_beta = 0, w_dest_i = 0, w_laps = 0,
          w_track = [(0, 0, 225, 3.5)], w_visited_other_side = False\<rparr>"
proof -
  have a: "atan2 0 225 = 0" by (simp add: atan2_def)
  have s: "scan_dest (make_checkpoints rnd) 0 0 = Inr (False, 0)"
    by (simp add: scan_dest.simps [of _ 0 0] make_checkpoints_nonempty make_checkpoints_first)
  have f: "find_dest (make_checkpoints rnd) 0 0 = Inr (0, 0)"
    by (simp add: find_dest.simps [of _ 0 0] s)
  have t: "turn_down 0 0 = 0" "turn_up 0 0 = 0"
    by (simp_all add: turn_down.simps [of 0 0] turn_up.simps [of 0 0])
  show ?thesis
    by (simp add: walk_body_def walk_start_def TRACK_RAD_def SCALE_def a f t
        make_checkpoints_first TRACK_DETAIL_STEP_def Let_def)
qed

theorem path_walk_terminates_witness:
  "make_checkpoints (\<lambda>k. 0) \<noteq> [] \<and>
   walk_body (make_checkpoints (\<lambda>k. 0)) walk_start =
     Inr \<lparr>w_x = 225, w_y = 3.5, w_beta = 0, w_dest_i = 0, w_laps = 0,
          w_track = [(0, 0, 225, 3.5)], w_visited_other_side = False\<rparr> \<and>
   (\<exists>track. walk (make_checkpoints (\<lambda>k. 0)) = Inr track \<and>
      1 \<le> length track \<and> length track \<le> 2500)"
proof -
  note ne = make_checkpoints_nonempty [of "\<lambda>k. 0"]
  let ?cps = "make_checkpoints (\<lambda>k. 0)"
  from path_walk_terminates [OF ne, THEN conjunct2, THEN conjunct2] obtain N where
    "\<exists>st'. 1 \<le> N \<and> N \<le> 2500 \<and> walk_iter ?cps N walk_start = Inr st' \<and>
       walk ?cps = Inr (w_track st') \<and> length (w_track st') = N \<and>
       (4 < w_laps st' \<or> N = 2500) \<and>
       (\<forall>k. 1 \<le> k \<and> k < N \<longrightarrow> (\<exists>s. walk_iter ?cps k walk_start = Inr s \<and> w_laps s \<le> 4))" ..
  then obtain st' where
    r: "1 \<le> N \<and> N \<le> 2500 \<and> walk_iter ?cps N walk_start = Inr st' \<and>
       walk ?cps = Inr (w_track st') \<and> length (w_track st') = N \<and>
       (4 < w_laps st' \<or> N = 2500) \<and>
       (\<forall>k. 1 \<le> k \<and> k < N \<longrightarrow> (\<exists>s. walk_iter ?cps k walk_start = Inr s \<and> w_laps s \<le> 4))" ..
  have "walk ?cps = Inr (w_track st') \<and> 1 \<le> length (w_track st') \<and>
      length (w_track st') \<le> 2500"
    using r by simp
  then have "\<exists>track. walk ?cps = Inr track \<and> 1 \<le> length track \<and> length track \<le> 2500" ..
  with ne first_step [of "\<lambda>k. 0"] show ?thesis by simp
qed

subsection \<open>Intersection resolution\<close>

lemma np_delete_subseq: "subseq (np_delete xs removed) xs"
proof -
  have "subseq (filter (\<lambda>(j, x). j \<notin> set removed) (enumerate 0 xs)) (enumerate 0 xs)"
    by (rule subseq_filter_left)
  then have "subseq (map snd (filter (\<lambda>(j, x). j \<notin> set removed) (enumerate 0 xs)))
      (map snd (enumerate 0 xs))"
    by (rule subseq_map)
  then show ?thesis by (simp add: np_delete_def)
qed

lemma np_delete_nths: "np_delete xs removed = nths xs (- set removed)"
proof -
  have "np_delete xs removed = map fst (filter (\<lambda>p. snd p \<notin> set removed) (zip xs [0..<length xs]))"
    unfolding np_delete_def enumerate_eq_zip
    by (induction xs rule: rev_induct) (auto simp: case_prod_beta)
  then show ?thesis by (simp add: nths_def)
qed

lemma nths_complement_subseq: "subseq (nths xs (- set removed)) xs"
  using np_delete_subseq [of xs removed] by (simp add: np_delete_nths)

lemma sqrt_le_iff_sq: "0 \<le> c \<Longrightarrow> sqrt x \<le> c \<longleftrightarrow> x \<le> c\<^sup>2"
  by (metis abs_of_nonneg real_sqrt_abs real_sqrt_le_iff)

lemma sqrt_less_iff_sq: "0 \<le> c \<Longrightarrow> sqrt x < c \<longleftrightarrow> x < c\<^sup>2"
  by (metis abs_of_nonneg real_sqrt_abs real_sqrt_less_iff)

lemma within_half_width:
  "norm2 a b \<le> TRACK_WIDTH / 2 \<longleftrightarrow> 9 * ((fst a - fst b)\<^sup>2 + (snd a - snd b)\<^sup>2) \<le> 100"
proof -
  have c: "TRACK_WIDTH / 2 = 10 / 3" by (simp add: TRACK_WIDTH_def SCALE_def)
  show ?thesis
    unfolding c norm2_def by (subst sqrt_le_iff_sq) (auto simp: power2_eq_square algebra_simps)
qed

lemma within_crossing_width:
  "norm2 a b \<le> TRACK_WIDTH / 3.5 \<longleftrightarrow> 441 * ((fst a - fst b)\<^sup>2 + (snd a - snd b)\<^sup>2) \<le> 1600"
proof -
  have c: "TRACK_WIDTH / 3.5 = 40 / 21" by (simp add: TRACK_WIDTH_def SCALE_def)
  show ?thesis
    unfolding c norm2_def by (subst sqrt_le_iff_sq) (auto simp: power2_eq_square algebra_simps)
qed

lemma zero_below_threshold: "0 < THRESHOLD * 2"
  by (simp add: THRESHOLD_def TRACK_WIDTH_def SCALE_def)

lemmas pts = ra_def rn_def rb_def rd_def pt_xy_def pt_x_def pt_y_def seg_xy_def

lemma inter2_ex: "inter2_of primary_track secondary_track =
    [((0, 100), (30, 0)), ((30, 0), (40, 0)), ((40, 0), (0, 30))]"
  unfolding inter2_of_def near_primary_def within_crossing_width
  by (simp add: primary_track_def secondary_track_def pts)

lemma ints_ex: "intersections_of [((0, 100), (30, 0)), ((30, 0), (40, 0)), ((40, 0), (0, 30))] =
    [((0, 100), (30, 0)), ((40, 0), (0, 30 :: real))]"
  by (simp add: intersections_of_def py_nth_def upt_conv_Cons)

lemmas get_section_sq = get_section_loop.simps [unfolded within_half_width]

lemma sections_ex:
  "get_section (0, 30) (0, 100) primary_track =
     Some [((40, 0), (0, 30)), ((0, 30), (30, 0)), ((30, 0), (40, 0)), ((40, 0), (0, 30))]"
  "get_section (0, 30) (0, 100) secondary_track = Some [((40, 0), (0, 30)), ((0, 30), (0, 100))]"
  "get_section (30, 0) (40, 0) primary_track = Some [((0, 30), (30, 0)), ((30, 0), (40, 0))]"
  "get_section (30, 0) (40, 0) secondary_track = Some [((0, 100), (30, 0)), ((30, 0), (40, 0))]"
  unfolding get_section_def
  by (simp_all add: get_section_sq primary_track_def secondary_track_def pts Let_def)

lemma max_min_d_ex:
  "max_min_d [((40, 0), (0, 30)), ((0, 30), (30, 0)), ((30, 0), (40, 0)), ((40, 0), (0, 30))]
     [((40, 0), (0, 30)), ((0, 30), (0, 100))] = 50"
  "max_min_d [((0, 30), (30, 0)), ((30, 0), (40, 0))]
     [((0, 100), (30, 0)), ((30, 0), (40, 0))] = 0"
  by (simp_all add: max_min_d_def norm2_def min_def Let_def sqrt_less_iff_sq)

lemma removed_idx_ex: "removed_idx primary_track secondary_track = [0, 1]"
proof -
  have m: "matching_idx secondary_track ((0, 100), (30, 0)) = [0]"
    "matching_idx secondary_track ((30, 0), (40, 0)) = [1]"
    by (simp_all add: matching_idx_def secondary_track_def pts upt_conv_Cons)
  have r0: "section_removals primary_track secondary_track
      [((0, 100), (30, 0)), ((40, 0), (0, 30))] 0 = []"
    by (simp add: section_removals_def py_nth_def sections_ex max_min_d_ex THRESHOLD_def
        TRACK_WIDTH_def SCALE_def)
  have r1: "section_removals primary_track secondary_track
      [((0, 100), (30, 0)), ((40, 0), (0, 30))] (Suc 0) = [0, 1]"
    by (simp add: section_removals_def py_nth_def sections_ex max_min_d_ex zero_below_threshold m)
  show ?thesis
    by (simp add: removed_idx_def inter2_ex ints_ex upt_conv_Cons r0 r1)
qed

lemma remove_roads_ex:
  "remove_roads default_config [primary_track, secondary_track] =
     Inr [primary_track, [(rn, rb), (rb, rd)]]"
  by (simp add: remove_roads_def default_config_def removed_idx_ex np_delete_def enumerate_eq_zip
      upt_conv_Cons) (simp add: primary_track_def secondary_track_def)


text \<open>
  C5: with a single track \<^verbatim>\<open>_remove_roads\<close> changes nothing. With more, it returns on
  non-empty tracks, the primary track is unchanged, the secondary track keeps exactly the
  segments whose index is not marked, in their order, and any further track is unchanged.
\<close>

theorem remove_roads_frame:
  "(num_tracks self \<le> 1 \<longrightarrow> remove_roads self tracks = Inr tracks) \<and>
   (num_tracks self > 1 \<and> 2 \<le> length tracks \<and> tracks ! 0 \<noteq> [] \<and> tracks ! 1 \<noteq> [] \<longrightarrow>
      (\<exists>tracks'. remove_roads self tracks = Inr tracks')) \<and>
   (\<forall>tracks'. num_tracks self > 1 \<and> remove_roads self tracks = Inr tracks' \<longrightarrow>
      length tracks' = length tracks \<and> tracks' ! 0 = tracks ! 0 \<and>
      subseq (tracks' ! 1) (tracks ! 1) \<and>
      tracks' ! 1 = nths (tracks ! 1) (- set (removed_idx (tracks ! 0) (tracks ! 1))) \<and>
      (\<forall>k. 2 \<le> k \<longrightarrow> tracks' ! k = tracks ! k))"
  by (auto simp: remove_roads_def Let_def nths_complement_subseq np_delete_nths split: if_splits)

theorem remove_roads_frame_witness:
  "remove_roads default_config [primary_track, secondary_track] =
     Inr [primary_track, [(rn, rb), (rb, rd)]] \<and>
   subseq [(rn, rb), (rb, rd)] secondary_track \<and>
   remove_roads (default_config\<lparr>num_tracks := 1\<rparr>) [primary_track] = Inr [primary_track]"
proof -
  have n: "num_tracks default_config > 1" by (simp add: default_config_def)
  note frame = remove_roads_frame [of default_config "[primary_track, secondary_track]",
      THEN conjunct2, THEN conjunct2, rule_format, OF conjI [OF n remove_roads_ex]]
  from frame [THEN conjunct2, THEN conjunct2, THEN conjunct1]
  have sub: "subseq [(rn, rb), (rb, rd)] secondary_track" by simp
  from remove_roads_frame [of "default_config\<lparr>num_tracks := 1\<rparr>" "[primary_track]",
      THEN conjunct1]
  have one: "remove_roads (default_config\<lparr>num_tracks := 1\<rparr>) [primary_track] =
      Inr [primary_track]"
    by simp
  from remove_roads_ex sub one show ?thesis by simp
qed

subsection \<open>Dependence on the process-wide random source\<close>

lemma remove_roads_two_tracks: "remove_roads default_config two_tracks = Inr two_tracks"
proof -
  have "inter2_of [(pb, pa), (pa, pb)] [(pd, pc), (pc, pd)] = []"
    unfolding inter2_of_def near_primary_def within_crossing_width
    by (simp add: pa_def pb_def pc_def pd_def pt_xy_def pt_x_def pt_y_def)
  then have "removed_idx [(pb, pa), (pa, pb)] [(pd, pc), (pc, pd)] = []"
    by (simp add: removed_idx_def intersections_of_def)
  then show ?thesis
    by (simp add: remove_roads_def default_config_def two_tracks_def np_delete_def
        enumerate_eq_zip upt_conv_Cons)
qed

text \<open>The track geometry itself does not depend on the draws of \<^verbatim>\<open>_set_lanes\<close>.\<close>

lemma annotate_tracks_geometry:
  assumes "annotate_tracks self tracks changes1 draws1 = Inr (tracks1, info1)"
    and "annotate_tracks self tracks changes2 draws2 = Inr (tracks2, info2)"
  shows "tracks1 = tracks2"
  using assms by (auto simp: annotate_tracks_def Let_def split: sum.splits if_splits)

text \<open>
  C1 says that the generation is a function of the seeded source alone. The lane to drop
  in \<^verbatim>\<open>_set_lanes\<close> and the lateral offset in \<^verbatim>\<open>get_rnd_point_in_track\<close> are drawn from
  \<^verbatim>\<open>np.random\<close>, which \<^verbatim>\<open>seed()\<close> does not seed: with the same tracks and the same
  seeded draws, two values of the process-wide source give two different \<open>info\<close> arrays
  and two different points.
\<close>

theorem generation_depends_on_unseeded_source:
  "annotate_tracks default_config two_tracks [1, 3, 1] (\<lambda>k. True) =
     Inr (two_tracks,
       [zero_info\<lparr>info_track := 0, info_lanes := [True, True]\<rparr>,
        zero_info\<lparr>info_track := 1, info_lanes := [True, False]\<rparr>,
        zero_info\<lparr>info_track := 1, info_lanes := [True, False]\<rparr>,
        zero_info\<lparr>info_track := 1, info_lanes := [True, True]\<rparr>]) \<and>
   annotate_tracks default_config two_tracks [1, 3, 1] (\<lambda>k. False) =
     Inr (two_tracks,
       [zero_info\<lparr>info_track := 0, info_lanes := [True, True]\<rparr>,
        zero_info\<lparr>info_track := 1, info_lanes := [False, True]\<rparr>,
        zero_info\<lparr>info_track := 1, info_lanes := [False, True]\<rparr>,
        zero_info\<lparr>info_track := 1, info_lanes := [True, True]\<rparr>]) \<and>
   get_rnd_point_in_track [west_segment] [both_lanes] True 0 0.1 =
     Inr [0, - 150 + - (37 / 35) * TRACK_WIDTH, 0] \<and>
   get_rnd_point_in_track [west_segment] [both_lanes] True 0 0.45 =
     Inr [0, - 150 + - (9 / 35) * TRACK_WIDTH, 0]"
proof -
  have ne: "two_tracks \<noteq> []" by (simp add: two_tracks_def)
  have a: "annotate_tracks default_config two_tracks [1, 3, 1] (\<lambda>k. True) =
      Inr (two_tracks,
       [zero_info\<lparr>info_track := 0, info_lanes := [True, True]\<rparr>,
        zero_info\<lparr>info_track := 1, info_lanes := [True, False]\<rparr>,
        zero_info\<lparr>info_track := 1, info_lanes := [True, False]\<rparr>,
        zero_info\<lparr>info_track := 1, info_lanes := [True, True]\<rparr>])"
    "annotate_tracks default_config two_tracks [1, 3, 1] (\<lambda>k. False) =
      Inr (two_tracks,
       [zero_info\<lparr>info_track := 0, info_lanes := [True, True]\<rparr>,
        zero_info\<lparr>info_track := 1, info_lanes := [False, True]\<rparr>,
        zero_info\<lparr>info_track := 1, info_lanes := [False, True]\<rparr>,
        zero_info\<lparr>info_track := 1, info_lanes := [True, True]\<rparr>])"
    unfolding annotate_tracks_def
    by (simp_all add: remove_roads_two_tracks ne create_info_two_tracks)
      (simp_all add: set_lanes_def set_lanes_step_def Let_def upt_conv_Cons zero_info_def
        default_config_def two_tracks_def)
  have p: "get_rnd_point_in_track [west_segment] [both_lanes] True 0 u =
      Inr [0, - 150 + rnd_offset pi True True True u, 0]" for u
    by (simp add: get_rnd_point_in_track_def west_segment_def both_lanes_def zero_info_def)
  from a p [of "0.1"] p [of "0.45"] show ?thesis
    by (simp add: rnd_offset_west)
qed

subsection \<open>Configuration\<close>

text \<open>
  C10: \<^verbatim>\<open>set_config\<close> stores \<open>num_lanes\<close> and \<open>num_tracks\<close> exactly when the argument is
  in \<open>{1,2}\<close>, \<open>prob_obstacle\<close> exactly when the argument is in \<open>[0,1]\<close>, and
  \<open>num_lanes_changes\<close> exactly when the argument is non-negative; each field keeps its
  previous value otherwise, and the rest of the environment (the \<open>more\<close> part of the
  record) is not touched.
\<close>

theorem set_config_frame:
  "num_lanes (set_config self nt nl nc po) = (if nl \<in> {1, 2} then nl else num_lanes self) \<and>
   num_tracks (set_config self nt nl nc po) = (if nt \<in> {1, 2} then nt else num_tracks self) \<and>
   prob_obstacle (set_config self nt nl nc po) =
     (if po \<in> {0..1} then po else prob_obstacle self) \<and>
   num_lanes_changes (set_config self nt nl nc po) =
     (if nc \<ge> 0 then nc else num_lanes_changes self) \<and>
   config.more (set_config self nt nl nc po) = config.more self"
  by (auto simp: set_config_def Let_def)

theorem set_config_frame_witness:
  "set_config \<lparr>num_lanes_changes = 3, num_tracks = 2, num_lanes = 2, prob_obstacle = 0.1\<rparr>
     1 5 (-1) 0.5
   = \<lparr>num_lanes_changes = 3, num_tracks = 1, num_lanes = 2, prob_obstacle = 0.5\<rparr>"
  using set_config_frame [of "\<lparr>num_lanes_changes = 3, num_tracks = 2, num_lanes = 2,
      prob_obstacle = 0.1\<rparr>" 1 5 "-1" "0.5"]
  by (simp add: set_config_def)

end
